theory Spec2Isabelle
  imports Complex_Main
begin

section \<open>Snowfall: a shallow embedding of \<^verbatim>\<open>snowfall.py\<close>\<close>

text \<open>
  The program keeps its simulation state in module-level variables, one dictionary and
  twelve parallel arrays. The embedding collects them in one record that every operation
  takes and returns. Python's unbounded integers are \<open>int\<close> (counters that only count up
  from zero are \<open>nat\<close>); Python's floats are \<open>real\<close>, so rounding is not part of the
  model. The drawing calls of \<^verbatim>\<open>run\<close> only read the state and are left out, and so
  are the two point clouds \<^verbatim>\<open>box_pts\<close> and \<^verbatim>\<open>text_pts\<close>, which only the drawing
  calls read.
\<close>

subsection \<open>Constants\<close>

definition BUTTON_G :: int where "BUTTON_G = 13"
definition BUTTON_R :: int where "BUTTON_R = 24"

definition L_LEFT :: real where "L_LEFT = - 45"
definition L_RIGHT :: real where "L_RIGHT = 45"
definition L_TOP :: real where "L_TOP = - 12"
definition L_BOT :: real where "L_BOT = 12"

definition GRAVITY :: real where "GRAVITY = 0.08"
definition FRICTION :: real where "FRICTION = 0.95"
definition MAX_SNOW :: nat where "MAX_SNOW = 10"
definition MAX_PILE :: nat where "MAX_PILE = 200"
definition ROT_STEPS :: nat where "ROT_STEPS = 126"
definition MELT_RATE :: nat where "MELT_RATE = 60"

text \<open>The two lookup tables, filled once when the module is loaded (lines 47 to 52).\<close>

definition SIN_LUT :: "real list" where
  "SIN_LUT = map (\<lambda>i. sin (real i * 0.05)) [0..<ROT_STEPS]"

definition COS_LUT :: "real list" where
  "COS_LUT = map (\<lambda>i. cos (real i * 0.05)) [0..<ROT_STEPS]"

subsection \<open>State, host and per-frame input\<close>

record app =
  SCREEN_W :: int
  SCREEN_H :: int
  CX :: int
  CY :: int
  GROUND_CHUNKS :: int
  stage :: nat
  start_time :: int
  a_idx :: nat
  rot :: bool
  ground :: "int list"
  tick :: nat
  sn_act :: "bool list"
  sn_x :: "real list"
  sn_y :: "real list"
  sn_vx :: "real list"
  sn_vy :: "real list"
  sn_px :: "real list"
  sn_py :: "real list"
  pl_act :: "bool list"
  pl_rx :: "real list"
  pl_ry :: "real list"
  pl_sv :: "real list"
  pl_edge :: "nat list"

text \<open>
  What the framework fixes for the whole run: the screen size that \<^verbatim>\<open>start\<close> reads from
  \<^verbatim>\<open>view_manager.draw.size\<close>, and the two button codes that the program imports from
  \<^verbatim>\<open>picoware.system.buttons\<close> and that are taken as parameters here.
\<close>

record host =
  size_x :: int
  size_y :: int
  BUTTON_BACK :: int
  BUTTON_ESCAPE :: int

text \<open>
  What one call of \<^verbatim>\<open>run\<close> reads from outside: the pressed button, the clock (once by
  \<^verbatim>\<open>run\<close>, once more by \<^verbatim>\<open>start\<close> when the reset key is down), and the four
  values of the random source in the order in which the code draws them.
\<close>

record inp =
  button :: int
  now :: int
  now_start :: int
  r_spawn :: real
  r_x :: int
  r_vx :: real
  r_vy :: real

text \<open>
  Modelled from the spec: \<^verbatim>\<open>time.ticks_diff\<close> belongs to the runtime, not to this
  repository; the specification describes it as the elapsed milliseconds of a monotonic
  clock.
\<close>

definition ticks_diff :: "int \<Rightarrow> int \<Rightarrow> int" where
  "ticks_diff a b = a - b"

subsection \<open>Reset\<close>

text \<open>Lines 98 to 116 of \<^verbatim>\<open>start\<close>; the two array loops write every flag in place.\<close>

definition clear_flags :: "nat \<Rightarrow> bool list \<Rightarrow> bool list" where
  "clear_flags n xs = fold (\<lambda>i ys. ys[i := False]) [0..<n] xs"

definition start :: "host \<Rightarrow> int \<Rightarrow> app \<Rightarrow> app" where
  "start h t s =
     (let w = size_x h; hh = size_y h; g = w div 4 + 1 in
      s\<lparr>SCREEN_W := w, SCREEN_H := hh, CX := w div 2, CY := hh div 2, GROUND_CHUNKS := g,
        stage := 0, start_time := t, a_idx := 0, rot := False,
        ground := replicate (nat g) hh, tick := 0,
        sn_act := clear_flags MAX_SNOW (sn_act s),
        pl_act := clear_flags MAX_PILE (pl_act s)\<rparr>)"

text \<open>The module-level values before the first \<^verbatim>\<open>start\<close> (lines 11 to 15 and 64 to 77).
  The dictionary \<^verbatim>\<open>state\<close> is empty then; its six entries are given the values that
  \<^verbatim>\<open>start\<close> is about to store.\<close>

definition boot :: app where
  "boot = \<lparr>SCREEN_W = 320, SCREEN_H = 240, CX = 160, CY = 120, GROUND_CHUNKS = 80,
     stage = 0, start_time = 0, a_idx = 0, rot = False, ground = [], tick = 0,
     sn_act = replicate MAX_SNOW False, sn_x = replicate MAX_SNOW 0,
     sn_y = replicate MAX_SNOW 0, sn_vx = replicate MAX_SNOW 0,
     sn_vy = replicate MAX_SNOW 0, sn_px = replicate MAX_SNOW 0,
     sn_py = replicate MAX_SNOW 0,
     pl_act = replicate MAX_PILE False, pl_rx = replicate MAX_PILE 0,
     pl_ry = replicate MAX_PILE 0, pl_sv = replicate MAX_PILE 0,
     pl_edge = replicate MAX_PILE 0\<rparr>"

subsection \<open>Melting and spawning\<close>

text \<open>Lines 175 to 177.\<close>

definition melt_col :: "int \<Rightarrow> nat \<Rightarrow> int list \<Rightarrow> int list" where
  "melt_col scr_h i g = (if g ! i < scr_h then g[i := g ! i + 1] else g)"

definition melt :: "app \<Rightarrow> app" where
  "melt s = s\<lparr>ground := fold (melt_col (SCREEN_H s)) [0..<nat (GROUND_CHUNKS s)] (ground s)\<rparr>"

text \<open>Lines 180 to 189: the first dormant slot is woken, the loop stops there.\<close>

definition first_free :: "bool list \<Rightarrow> nat \<Rightarrow> nat option" where
  "first_free acts n = find (\<lambda>i. \<not> acts ! i) [0..<n]"

definition spawn :: "inp \<Rightarrow> app \<Rightarrow> app" where
  "spawn inp s =
     (case first_free (sn_act s) MAX_SNOW of
        None \<Rightarrow> s
      | Some i \<Rightarrow>
          s\<lparr>sn_act := (sn_act s)[i := True],
            sn_x := (sn_x s)[i := real_of_int (r_x inp)],
            sn_y := (sn_y s)[i := - 5],
            sn_vx := (sn_vx s)[i := r_vx inp],
            sn_vy := (sn_vy s)[i := r_vy inp],
            sn_px := (sn_px s)[i := real_of_int (r_x inp)],
            sn_py := (sn_py s)[i := - 5]\<rparr>)"

subsection \<open>The collision pass\<close>

text \<open>Python's \<^verbatim>\<open>int(x)\<close> on a float drops the fraction, towards zero.\<close>

definition py_int :: "real \<Rightarrow> int" where
  "py_int x = (if 0 \<le> x then \<lfloor>x\<rfloor> else \<lceil>x\<rceil>)"

text \<open>Line 210: \<^verbatim>\<open>chunk = _int(x) >> 2\<close>.\<close>

definition chunk_of :: "real \<Rightarrow> int" where
  "chunk_of x = drop_bit 2 (py_int x)"

text \<open>Lines 212 to 215, with the flag \<^verbatim>\<open>landed\<close> as the second component.\<close>

definition ground_test :: "int \<Rightarrow> real \<Rightarrow> app \<Rightarrow> app \<times> bool" where
  "ground_test chunk yb s =
     (if 0 \<le> chunk \<and> chunk < GROUND_CHUNKS s then
        (if real_of_int (ground s ! nat chunk) \<le> yb then
           (s\<lparr>ground := (ground s)[nat chunk := ground s ! nat chunk - 4]\<rparr>, True)
         else (s, False))
      else (s, False))"

text \<open>Lines 224 to 228 and 234 to 241: the four distances, their minimum, and the
  comparison chain that picks the edge (0 top, 1 bottom, 2 left, 3 right) and the
  snapped position.\<close>

definition snap :: "real \<Rightarrow> real \<Rightarrow> real \<times> real \<times> nat" where
  "snap lx ly =
     (let dt = \<bar>ly - L_TOP\<bar>; db = \<bar>ly - L_BOT\<bar>; dl = \<bar>lx - L_LEFT\<bar>; dr = \<bar>lx - L_RIGHT\<bar>;
          m = min (min (min dt db) dl) dr
      in if m = dt then (lx, L_TOP, 0)
         else if m = db then (lx, L_BOT, 1)
         else if m = dl then (L_LEFT, ly, 2)
         else (L_RIGHT, ly, 3))"

text \<open>Lines 230 to 242: the first dormant pile slot takes the particle; none, nothing.\<close>

definition pile_alloc :: "real \<Rightarrow> real \<Rightarrow> app \<Rightarrow> app" where
  "pile_alloc lx ly s =
     (case first_free (pl_act s) MAX_PILE of
        None \<Rightarrow> s
      | Some p \<Rightarrow>
          (case snap lx ly of (rx, ry, e) \<Rightarrow>
             s\<lparr>pl_act := (pl_act s)[p := True],
               pl_sv := (pl_sv s)[p := 0],
               pl_rx := (pl_rx s)[p := rx],
               pl_ry := (pl_ry s)[p := ry],
               pl_edge := (pl_edge s)[p := e]\<rparr>))"

text \<open>Lines 220 and 221, the inverse rotation into the logo's frame.\<close>

definition to_local :: "real \<Rightarrow> real \<Rightarrow> real \<Rightarrow> real \<Rightarrow> real \<times> real" where
  "to_local s_ang c_ang dx dy = (dx * c_ang + dy * s_ang, - dx * s_ang + dy * c_ang)"

text \<open>Lines 218 to 243.\<close>

definition body_test :: "real \<Rightarrow> real \<Rightarrow> real \<Rightarrow> real \<Rightarrow> app \<Rightarrow> app \<times> bool" where
  "body_test s_ang c_ang x y s =
     (let dx = x - real_of_int (CX s); dy = y - real_of_int (CY s);
          (lx, ly) = to_local s_ang c_ang dx dy
      in if L_LEFT \<le> lx \<and> lx \<le> L_RIGHT \<and> L_TOP \<le> ly \<and> ly \<le> L_BOT
         then (pile_alloc lx ly s, True)
         else (s, False))"

text \<open>Lines 197 to 207: the slot is moved; the new position stays in the locals \<open>x\<close>
  and \<open>y\<close>, which the tests below read.\<close>

definition integrate :: "nat \<Rightarrow> app \<Rightarrow> app \<times> real \<times> real" where
  "integrate i s =
     (let x = sn_x s ! i; y = sn_y s ! i;
          vy = sn_vy s ! i + GRAVITY;
          x' = x + sn_vx s ! i;
          y' = y + vy
      in (s\<lparr>sn_px := (sn_px s)[i := x], sn_py := (sn_py s)[i := y],
            sn_vy := (sn_vy s)[i := vy],
            sn_x := (sn_x s)[i := x'], sn_y := (sn_y s)[i := y']\<rparr>, x', y'))"

text \<open>Lines 245 and 246.\<close>

definition retire :: "nat \<Rightarrow> real \<Rightarrow> app \<times> bool \<Rightarrow> app" where
  "retire i y r =
     (case r of (s, landed) \<Rightarrow>
        if landed \<or> real_of_int (SCREEN_H s) \<le> y
        then s\<lparr>sn_act := (sn_act s)[i := False]\<rparr> else s)"

text \<open>Lines 195 to 246, the body of the loop over the snowflake slots.\<close>

definition snow_step :: "real \<Rightarrow> real \<Rightarrow> nat \<Rightarrow> app \<Rightarrow> app" where
  "snow_step s_ang c_ang i s =
     (if \<not> sn_act s ! i then s
      else
        case integrate i s of (s1, x, y) \<Rightarrow>
          (case ground_test (chunk_of x) (y + 4) s1 of (s2, landed) \<Rightarrow>
             retire i y (if \<not> landed then body_test s_ang c_ang x y s2 else (s2, landed))))"

definition snow_pass :: "real \<Rightarrow> real \<Rightarrow> app \<Rightarrow> app" where
  "snow_pass s_ang c_ang s = fold (snow_step s_ang c_ang) [0..<MAX_SNOW] s"

subsection \<open>The edge-slide pass\<close>

text \<open>Lines 258 to 285: the new sliding velocity, the state with the moved coordinate,
  and the flag \<^verbatim>\<open>fall\<close>. An edge code outside 0..3 matches no branch.\<close>

definition slide :: "real \<Rightarrow> real \<Rightarrow> nat \<Rightarrow> app \<Rightarrow> app \<times> real \<times> bool" where
  "slide gx gy p s =
     (let e = pl_edge s ! p; sv = pl_sv s ! p in
      if e = 0 then
        (if gy < 0 then (s, sv, True)
         else let sv' = (sv + gx) * FRICTION; rx = pl_rx s ! p + sv' in
              (s\<lparr>pl_rx := (pl_rx s)[p := rx]\<rparr>, sv', rx < L_LEFT \<or> L_RIGHT < rx))
      else if e = 1 then
        (if 0 < gy then (s, sv, True)
         else let sv' = (sv + gx) * FRICTION; rx = pl_rx s ! p + sv' in
              (s\<lparr>pl_rx := (pl_rx s)[p := rx]\<rparr>, sv', rx < L_LEFT \<or> L_RIGHT < rx))
      else if e = 2 then
        (if 0 < gx then (s, sv, True)
         else let sv' = (sv + gy) * FRICTION; ry = pl_ry s ! p + sv' in
              (s\<lparr>pl_ry := (pl_ry s)[p := ry]\<rparr>, sv', ry < L_TOP \<or> L_BOT < ry))
      else if e = 3 then
        (if gx < 0 then (s, sv, True)
         else let sv' = (sv + gy) * FRICTION; ry = pl_ry s ! p + sv' in
              (s\<lparr>pl_ry := (pl_ry s)[p := ry]\<rparr>, sv', ry < L_TOP \<or> L_BOT < ry))
      else (s, sv, False))"

text \<open>Lines 293 and 294 without the centre, the forward rotation out of the logo's frame.\<close>

definition to_world :: "real \<Rightarrow> real \<Rightarrow> real \<Rightarrow> real \<Rightarrow> real \<times> real" where
  "to_world s_ang c_ang rx ry = (rx * c_ang - ry * s_ang, rx * s_ang + ry * c_ang)"

text \<open>Lines 290 to 306: the particle leaves the pile and asks for a snowflake slot.\<close>

definition fall_off :: "real \<Rightarrow> real \<Rightarrow> nat \<Rightarrow> nat \<Rightarrow> real \<Rightarrow> app \<Rightarrow> app" where
  "fall_off s_ang c_ang p e sv s =
     (let s1 = s\<lparr>pl_act := (pl_act s)[p := False]\<rparr>;
          rx = pl_rx s1 ! p; ry = pl_ry s1 ! p;
          (wx, wy) = to_world s_ang c_ang rx ry;
          ax = wx + real_of_int (CX s1);
          ay = wy + real_of_int (CY s1);
          (vx, vy) = (if e < 2 then (sv * c_ang, sv * s_ang + 1)
                      else (- sv * s_ang, sv * c_ang + 1))
      in case first_free (sn_act s1) MAX_SNOW of
           None \<Rightarrow> s1
         | Some i \<Rightarrow>
             s1\<lparr>sn_act := (sn_act s1)[i := True],
                sn_x := (sn_x s1)[i := ax], sn_y := (sn_y s1)[i := ay],
                sn_px := (sn_px s1)[i := ax], sn_py := (sn_py s1)[i := ay],
                sn_vx := (sn_vx s1)[i := vx], sn_vy := (sn_vy s1)[i := vy]\<rparr>)"

text \<open>Lines 252 to 306, the body of the loop over the pile slots.\<close>

definition pile_step :: "real \<Rightarrow> real \<Rightarrow> real \<Rightarrow> real \<Rightarrow> nat \<Rightarrow> app \<Rightarrow> app" where
  "pile_step s_ang c_ang gx gy p s =
     (if \<not> pl_act s ! p then s
      else
        let e = pl_edge s ! p;
            (s1, sv, fall) = slide gx gy p s;
            s2 = s1\<lparr>pl_sv := (pl_sv s1)[p := sv]\<rparr>
        in if fall then fall_off s_ang c_ang p e sv s2 else s2)"

text \<open>Lines 248 to 251.\<close>

definition pile_pass :: "real \<Rightarrow> real \<Rightarrow> app \<Rightarrow> app" where
  "pile_pass s_ang c_ang s =
     (let gx = s_ang * GRAVITY * 2; gy = c_ang * GRAVITY * 2
      in fold (pile_step s_ang c_ang gx gy) [0..<MAX_PILE] s)"

subsection \<open>One frame\<close>

text \<open>Lines 171 to 189: the frame counter, the melt every \<open>MELT_RATE\<close> frames, the
  spawn when the random source says so.\<close>

definition early :: "inp \<Rightarrow> app \<Rightarrow> app" where
  "early inp s =
     (let s1 = s\<lparr>tick := tick s + 1\<rparr>;
          s2 = (if tick s1 mod MELT_RATE = 0 then melt s1 else s1)
      in if r_spawn inp < 0.4 then spawn inp s2 else s2)"

text \<open>Lines 170 to 306, the block that runs when the stage is 1; \<open>a\<close>, \<open>s_ang\<close> and
  \<open>c_ang\<close> are the locals that lines 166 to 168 set before it.\<close>

definition simulate :: "inp \<Rightarrow> nat \<Rightarrow> real \<Rightarrow> real \<Rightarrow> app \<Rightarrow> app" where
  "simulate inp a s_ang c_ang s =
     (let s3 = early inp s;
          s4 = (if rot s3 then s3\<lparr>a_idx := (a + 1) mod ROT_STEPS\<rparr> else s3);
          s5 = snow_pass s_ang c_ang s4
      in pile_pass s_ang c_ang s5)"

text \<open>Lines 151 to 306 of \<^verbatim>\<open>run\<close>. Leaving through the back key changes nothing in the
  state; the reset key ends the frame after \<^verbatim>\<open>start\<close>.\<close>

definition run :: "host \<Rightarrow> inp \<Rightarrow> app \<Rightarrow> app" where
  "run h inp s =
     (if button inp = BUTTON_BACK h \<or> button inp = BUTTON_ESCAPE h then s
      else
        let s1 = (if button inp = BUTTON_G \<and> stage s = 1 then s\<lparr>rot := \<not> rot s\<rparr> else s)
        in if button inp = BUTTON_R then start h (now_start inp) s1
           else
             let s2 = (if stage s1 = 0 \<and> 5000 < ticks_diff (now inp) (start_time s1)
                       then s1\<lparr>stage := 1\<rparr> else s1);
                 a = a_idx s2;
                 s_ang = SIN_LUT ! a;
                 c_ang = COS_LUT ! a
             in if stage s2 = 1 then simulate inp a s_ang c_ang s2 else s2)"

text \<open>A run of frames, one input each.\<close>

fun frames :: "host \<Rightarrow> inp list \<Rightarrow> app \<Rightarrow> app" where
  "frames h [] s = s"
| "frames h (i # is) s = frames h is (run h i s)"


subsection \<open>Well-formed states\<close>

text \<open>
  The arrays are allocated once with their fixed sizes and only ever written by index;
  \<^verbatim>\<open>start\<close> sizes the ground list by the chunk count, and the angle index stays inside
  the tables. On such states no index of the program is out of range, which is why the
  operations above need no error value.
\<close>

definition wf :: "app \<Rightarrow> bool" where
  "wf s \<longleftrightarrow>
     length (sn_act s) = MAX_SNOW \<and> length (sn_x s) = MAX_SNOW \<and>
     length (sn_y s) = MAX_SNOW \<and> length (sn_vx s) = MAX_SNOW \<and>
     length (sn_vy s) = MAX_SNOW \<and> length (sn_px s) = MAX_SNOW \<and>
     length (sn_py s) = MAX_SNOW \<and>
     length (pl_act s) = MAX_PILE \<and> length (pl_rx s) = MAX_PILE \<and>
     length (pl_ry s) = MAX_PILE \<and> length (pl_sv s) = MAX_PILE \<and>
     length (pl_edge s) = MAX_PILE \<and>
     length (ground s) = nat (GROUND_CHUNKS s) \<and> a_idx s < ROT_STEPS"

text \<open>The states the program can be in: after \<^verbatim>\<open>start\<close>, and after any frame from there.\<close>

inductive reachable :: "host \<Rightarrow> app \<Rightarrow> bool" for h :: host where
  reach_start: "reachable h (start h t boot)"
| reach_run: "reachable h s \<Longrightarrow> reachable h (run h inp s)"


subsection \<open>Views of the state\<close>

text \<open>The part of the state that only \<^verbatim>\<open>start\<close> and the head of \<^verbatim>\<open>run\<close> write, one
  pile slot, and one snowflake slot; and the inputs with no key of the program down.\<close>

definition ctl :: "app \<Rightarrow> int \<times> int \<times> int \<times> int \<times> int \<times> nat \<times> int \<times> nat \<times> bool \<times> nat" where
  "ctl s = (SCREEN_W s, SCREEN_H s, CX s, CY s, GROUND_CHUNKS s,
            stage s, start_time s, a_idx s, rot s, tick s)"

definition pslot :: "app \<Rightarrow> nat \<Rightarrow> bool \<times> real \<times> real \<times> real \<times> nat" where
  "pslot s p = (pl_act s ! p, pl_rx s ! p, pl_ry s ! p, pl_sv s ! p, pl_edge s ! p)"

definition fslot :: "app \<Rightarrow> nat \<Rightarrow> bool \<times> real \<times> real \<times> real \<times> real" where
  "fslot s i = (sn_act s ! i, sn_x s ! i, sn_y s ! i, sn_vx s ! i, sn_vy s ! i)"

definition quiet :: "host \<Rightarrow> inp \<Rightarrow> bool" where
  "quiet h inp \<longleftrightarrow>
     button inp \<noteq> BUTTON_BACK h \<and> button inp \<noteq> BUTTON_ESCAPE h \<and>
     button inp \<noteq> BUTTON_G \<and> button inp \<noteq> BUTTON_R"

text \<open>The inputs on which \<^verbatim>\<open>run\<close> in the active stage goes on to simulate: neither
  the back key, nor escape, nor the reset key is down.\<close>

definition ticking :: "host \<Rightarrow> inp \<Rightarrow> bool" where
  "ticking h inp \<longleftrightarrow>
     button inp \<noteq> BUTTON_BACK h \<and> button inp \<noteq> BUTTON_ESCAPE h \<and> button inp \<noteq> BUTTON_R"

text \<open>Nothing in the air and nothing on the logo; one flake in the air, without drift,
  and nothing else; a column of the screen that the turning logo never reaches (its
  corners are \<open>sqrt (45\<^sup>2 + 12\<^sup>2)\<close> away from the centre).\<close>

definition calm :: "app \<Rightarrow> bool" where
  "calm s \<longleftrightarrow> (\<forall>j<MAX_SNOW. \<not> sn_act s ! j) \<and> (\<forall>p<MAX_PILE. \<not> pl_act s ! p)"

definition lone :: "nat \<Rightarrow> real \<Rightarrow> real \<Rightarrow> real \<Rightarrow> app \<Rightarrow> bool" where
  "lone i x y vy s \<longleftrightarrow>
     i < MAX_SNOW \<and> fslot s i = (True, x, y, 0, vy) \<and>
     (\<forall>j<MAX_SNOW. j \<noteq> i \<longrightarrow> \<not> sn_act s ! j) \<and> (\<forall>p<MAX_PILE. \<not> pl_act s ! p)"

definition clear_of_logo :: "real \<Rightarrow> app \<Rightarrow> bool" where
  "clear_of_logo x s \<longleftrightarrow> L_LEFT\<^sup>2 + L_TOP\<^sup>2 < (x - real_of_int (CX s))\<^sup>2"

text \<open>No column of the ground lies below the bottom of the screen.\<close>

definition ground_ok :: "app \<Rightarrow> bool" where
  "ground_ok s \<longleftrightarrow> list_all (\<lambda>g. g \<le> SCREEN_H s) (ground s)"

text \<open>
  Free fall in closed form: a flake that enters at height \<open>- 5\<close> with falling speed \<open>v\<close>
  has, after \<open>k\<close> frames, speed \<open>v + GRAVITY * k\<close> and height \<open>fall_y v k\<close>, the sum of the
  speeds of those frames. The three predicates describe a frame in the active stage with
  one such flake in the air above column \<open>chunk_of x\<close>, with nothing in the air, and an
  input with no key down that does not spawn.
\<close>

definition fall_y :: "real \<Rightarrow> nat \<Rightarrow> real" where
  "fall_y v k = - 5 + (\<Sum>j = 1..k. v + GRAVITY * real j)"

definition falling :: "nat \<Rightarrow> real \<Rightarrow> real \<Rightarrow> nat \<Rightarrow> app \<Rightarrow> bool" where
  "falling i x v k s \<longleftrightarrow>
     wf s \<and> stage s = 1 \<and> ground_ok s \<and> clear_of_logo x s \<and>
     0 \<le> chunk_of x \<and> chunk_of x < GROUND_CHUNKS s \<and>
     lone i x (fall_y v k) (v + GRAVITY * real k) s"

definition resting :: "real \<Rightarrow> app \<Rightarrow> bool" where
  "resting x s \<longleftrightarrow>
     wf s \<and> stage s = 1 \<and> ground_ok s \<and> clear_of_logo x s \<and>
     0 \<le> chunk_of x \<and> chunk_of x < GROUND_CHUNKS s \<and> calm s"

definition still :: "host \<Rightarrow> inp \<Rightarrow> bool" where
  "still h inp \<longleftrightarrow> quiet h inp \<and> \<not> r_spawn inp < 0.4"


subsection \<open>The nearest edge, in the specification's words\<close>

text \<open>
  The specification names the four edges and asks for the nearest one, the first of
  Top, Bottom, Left, Right among those at minimum perpendicular distance. The three
  definitions below say that, independently of the comparison chain of \<open>snap\<close>, to be
  compared with it.
\<close>

datatype edge = Top | Bottom | Left | Right

fun edge_code :: "edge \<Rightarrow> nat" where
  "edge_code Top = 0"
| "edge_code Bottom = 1"
| "edge_code Left = 2"
| "edge_code Right = 3"

fun edge_dist :: "real \<Rightarrow> real \<Rightarrow> edge \<Rightarrow> real" where
  "edge_dist lx ly Top = \<bar>ly - L_TOP\<bar>"
| "edge_dist lx ly Bottom = \<bar>ly - L_BOT\<bar>"
| "edge_dist lx ly Left = \<bar>lx - L_LEFT\<bar>"
| "edge_dist lx ly Right = \<bar>lx - L_RIGHT\<bar>"

definition spec_nearest_edge :: "real \<Rightarrow> real \<Rightarrow> edge" where
  "spec_nearest_edge lx ly =
     hd (filter (\<lambda>e. list_all (\<lambda>e'. edge_dist lx ly e \<le> edge_dist lx ly e')
                         [Top, Bottom, Left, Right])
                [Top, Bottom, Left, Right])"

fun spec_snap :: "real \<Rightarrow> real \<Rightarrow> edge \<Rightarrow> real \<times> real" where
  "spec_snap lx ly Top = (lx, L_TOP)"
| "spec_snap lx ly Bottom = (lx, L_BOT)"
| "spec_snap lx ly Left = (L_LEFT, ly)"
| "spec_snap lx ly Right = (L_RIGHT, ly)"

subsection \<open>A concrete run\<close>

text \<open>A 320 by 240 screen, the sizes of lines 11 and 12, and the state right after
  \<^verbatim>\<open>start\<close> on it. The two button codes stand for whatever the framework uses.\<close>

definition demo_host :: host where
  "demo_host = \<lparr>size_x = 320, size_y = 240, BUTTON_BACK = 1, BUTTON_ESCAPE = 2\<rparr>"

definition fresh :: app where
  "fresh = start demo_host 0 boot"

text \<open>The frame input that spawns the flake of the specification's scenario A: at
  \<open>x = 100\<close>, no drift, falling speed \<open>1/2\<close>; five seconds have passed, no key is down.\<close>

definition demo_flake :: inp where
  "demo_flake = \<lparr>button = 0, now = 6000, now_start = 0, r_spawn = 0,
                  r_x = 100, r_vx = 0, r_vy = 1 / 2\<rparr>"



text \<open>A frame input with no key down and no spawn, and a state in the active stage with
  one particle on the top edge of the logo, at its middle, sliding right at speed 1.\<close>

definition demo_quiet :: inp where
  "demo_quiet = \<lparr>button = 0, now = 6000, now_start = 0, r_spawn = 1 / 2,
                  r_x = 0, r_vx = 0, r_vy = 1 / 2\<rparr>"

definition demo_top :: app where
  "demo_top =
     fresh\<lparr>stage := 1, pl_act := (pl_act fresh)[0 := True], pl_ry := (pl_ry fresh)[0 := - 12],
           pl_sv := (pl_sv fresh)[0 := 1]\<rparr>"

text \<open>The same particle with the logo turned by one step of the table, and a particle on
  the bottom edge with the logo turned by 50 steps, where the bottom edge faces up.\<close>

definition demo_tilt :: app where
  "demo_tilt = demo_top\<lparr>a_idx := 1\<rparr>"

definition demo_under :: app where
  "demo_under =
     fresh\<lparr>stage := 1, a_idx := 50, pl_act := (pl_act fresh)[0 := True],
           pl_ry := (pl_ry fresh)[0 := 12], pl_sv := (pl_sv fresh)[0 := 1],
           pl_edge := (pl_edge fresh)[0 := 1]\<rparr>"


text \<open>
  A run that piles snow on column 0: a flake is spawned at \<open>x = 0\<close> with the largest
  falling speed, 60 frames pass, and the same again, 81 times. \<open>level\<close> is the height of
  column 0 less the number of melts there have been.
\<close>

definition demo_drop :: inp where
  "demo_drop = \<lparr>button = 0, now = 6000, now_start = 0, r_spawn = 0,
                 r_x = 0, r_vx = 0, r_vy = 3 / 2\<rparr>"

definition pile_up_cycle :: "inp list" where
  "pile_up_cycle = demo_drop # replicate 60 demo_quiet"

definition pile_up :: "nat \<Rightarrow> inp list" where
  "pile_up n = concat (replicate n pile_up_cycle)"

definition level :: "app \<Rightarrow> int" where
  "level s = ground s ! 0 - int (tick s div MELT_RATE)"

section \<open>Properties\<close>

subsection \<open>Every operation keeps the state well formed\<close>

lemma clear_flags_Suc: "clear_flags (Suc n) xs = (clear_flags n xs)[n := False]"
  by (simp add: clear_flags_def)

lemma length_clear_flags [simp]: "length (clear_flags n xs) = length xs"
  by (induction n) (simp_all add: clear_flags_Suc, simp add: clear_flags_def)

lemma nth_clear_flags:
  "j < length xs \<Longrightarrow> clear_flags n xs ! j = (if j < n then False else xs ! j)"
proof (induction n)
  case 0
  then show ?case by (simp add: clear_flags_def)
next
  case (Suc n)
  then show ?case by (simp add: clear_flags_Suc nth_list_update less_Suc_eq)
qed

lemma clear_flags_idem: "clear_flags n (clear_flags n xs) = clear_flags n xs"
  by (rule nth_equalityI) (simp_all add: nth_clear_flags)

lemma clear_flags_full: "length xs = n \<Longrightarrow> clear_flags n xs = replicate n False"
  by (rule nth_equalityI) (simp_all add: nth_clear_flags)

lemma wf_upd [simp]:
  "wf (s\<lparr>tick := t\<rparr>) = wf s" "wf (s\<lparr>rot := b\<rparr>) = wf s" "wf (s\<lparr>stage := n\<rparr>) = wf s"
  "wf (s\<lparr>start_time := t'\<rparr>) = wf s"
  by (simp_all add: wf_def)

lemma wf_a_idx: "wf s \<Longrightarrow> wf (s\<lparr>a_idx := k mod ROT_STEPS\<rparr>)"
  by (simp add: wf_def ROT_STEPS_def)

lemma wf_start_boot: "wf (start h t boot)"
  by (simp add: wf_def start_def boot_def Let_def ROT_STEPS_def)

lemma wf_start: "wf s \<Longrightarrow> wf (start h t s)"
  by (simp add: wf_def start_def Let_def ROT_STEPS_def)

lemma fold_melt_col_length [simp]: "length (fold (melt_col H) is g) = length g"
  by (induction "is" arbitrary: g) (simp_all add: melt_col_def)

lemma wf_melt: "wf s \<Longrightarrow> wf (melt s)"
  by (simp add: wf_def melt_def)

lemma wf_spawn: "wf s \<Longrightarrow> wf (spawn inp s)"
  by (simp add: wf_def spawn_def split: option.splits)

lemma wf_integrate: "wf s \<Longrightarrow> wf (fst (integrate i s))"
  by (simp add: wf_def integrate_def Let_def)

lemma wf_ground_test: "wf s \<Longrightarrow> wf (fst (ground_test c y s))"
  by (simp add: wf_def ground_test_def)

lemma wf_pile_alloc: "wf s \<Longrightarrow> wf (pile_alloc lx ly s)"
  by (simp add: wf_def pile_alloc_def split: option.splits prod.splits)

lemma wf_body_test: "wf s \<Longrightarrow> wf (fst (body_test sa ca x y s))"
  by (simp add: body_test_def Let_def wf_pile_alloc split: prod.splits)

lemma wf_retire: "wf (fst r) \<Longrightarrow> wf (retire i y r)"
  by (cases r) (simp add: retire_def wf_def)

lemma wf_snow_step: "wf s \<Longrightarrow> wf (snow_step sa ca i s)"
proof -
  assume w: "wf s"
  show ?thesis
  proof (cases "sn_act s ! i")
    case False then show ?thesis using w by (simp add: snow_step_def)
  next
    case True
    obtain s1 x y where i: "integrate i s = (s1, x, y)" by (cases "integrate i s") auto
    obtain s2 l where g: "ground_test (chunk_of x) (y + 4) s1 = (s2, l)" by (cases "ground_test (chunk_of x) (y + 4) s1") auto
    have w1: "wf s1" using wf_integrate [OF w, of i] i by simp
    have w2: "wf s2" using wf_ground_test [OF w1, of "chunk_of x" "y + 4"] g by simp
    have "wf (retire i y (if \<not> l then body_test sa ca x y s2 else (s2, l)))"
      by (rule wf_retire) (simp add: w2 wf_body_test)
    then show ?thesis using True by (simp add: snow_step_def i g)
  qed
qed

lemma wf_fold: "(\<And>i s. wf s \<Longrightarrow> wf (f i s)) \<Longrightarrow> wf s \<Longrightarrow> wf (fold f is s)"
  by (induction "is" arbitrary: s) simp_all

lemma wf_snow_pass: "wf s \<Longrightarrow> wf (snow_pass sa ca s)"
  unfolding snow_pass_def by (rule wf_fold) (rule wf_snow_step)

lemma wf_slide: "wf s \<Longrightarrow> wf (fst (slide gx gy p s))"
  by (simp add: slide_def Let_def wf_def)

lemma wf_fall_off: "wf s \<Longrightarrow> wf (fall_off sa ca p e sv s)"
  by (simp add: fall_off_def Let_def wf_def split: option.splits prod.splits)

lemma wf_pile_step: "wf s \<Longrightarrow> wf (pile_step sa ca gx gy p s)"
proof -
  assume w: "wf s"
  obtain s1 sv f where sl: "slide gx gy p s = (s1, sv, f)" by (cases "slide gx gy p s") auto
  have w1: "wf s1" using wf_slide [OF w, of gx gy p] sl by simp
  have w2: "wf (s1\<lparr>pl_sv := (pl_sv s1)[p := sv]\<rparr>)" using w1 by (simp add: wf_def)
  show ?thesis using w w2 by (simp add: pile_step_def sl Let_def wf_fall_off)
qed

lemma wf_pile_pass: "wf s \<Longrightarrow> wf (pile_pass sa ca s)"
  unfolding pile_pass_def Let_def by (rule wf_fold) (rule wf_pile_step)

lemma wf_simulate: "wf s \<Longrightarrow> wf (simulate inp a sa ca s)"
proof -
  assume w: "wf s"
  have e: "wf (early inp s)"
    by (simp add: early_def Let_def w wf_melt wf_spawn)
  show ?thesis unfolding simulate_def Let_def
    by (intro wf_pile_pass wf_snow_pass) (simp add: e wf_a_idx)
qed

lemma wf_run: "wf s \<Longrightarrow> wf (run h inp s)"
  unfolding run_def Let_def by (simp add: wf_start wf_simulate)

lemma wf_reachable: "reachable h s \<Longrightarrow> wf s"
  by (induction rule: reachable.induct) (simp_all add: wf_start_boot wf_run)

subsection \<open>The column of a flake\<close>

lemma floor_quarter: "\<lfloor>x / 4\<rfloor> = \<lfloor>x :: real\<rfloor> div 4"
  using floor_divide_real_eq_div [of 4 x] by simp

text \<open>
  Claim C2, as stated: the column that line 210 computes is \<open>\<lfloor>x / 4\<rfloor>\<close> for every
  position, negative and fractional ones included. It is not: \<^verbatim>\<open>int\<close> drops the
  fraction towards zero before the shift, so a flake at \<open>x = - 1/2\<close> is put in column 0,
  while \<open>\<lfloor>x / 4\<rfloor>\<close> is \<open>- 1\<close>.
\<close>

theorem chunk_of_not_floor: "chunk_of (- 1 / 2) = 0 \<and> \<lfloor>(- 1 / 2 :: real) / 4\<rfloor> = - 1"
  by (simp add: chunk_of_def py_int_def drop_bit_eq_div)

text \<open>
  Claim C2, amended: the column is \<open>\<lfloor>x / 4\<rfloor>\<close> for every position that is not negative
  and for every whole-numbered position; for a negative position the code rounds
  \<open>x\<close> up to the next integer first and the column is \<open>\<lceil>x\<rceil> div 4\<close>, the floor of a
  quarter of that integer.
\<close>

theorem chunk_of_trunc:
  "(0 \<le> x \<longrightarrow> chunk_of x = \<lfloor>x / 4\<rfloor>) \<and>
   (x < 0 \<longrightarrow> chunk_of x = \<lceil>x\<rceil> div 4) \<and>
   chunk_of (real_of_int k) = \<lfloor>real_of_int k / 4\<rfloor>"
  by (simp add: chunk_of_def py_int_def drop_bit_eq_div floor_quarter)

theorem chunk_of_trunc_witness:
  "(0::real) \<le> 101 / 2 \<and> chunk_of (101 / 2) = 12 \<and>
   (- 9 / 2 :: real) < 0 \<and> chunk_of (- 9 / 2) = - 1 \<and> \<lfloor>(- 9 / 2 :: real) / 4\<rfloor> = - 2"
  using chunk_of_trunc [of "101 / 2" 0] chunk_of_trunc [of "- 9 / 2" 0]
  by simp

subsection \<open>The rotation tables\<close>

lemma SIN_LUT_nth: "i < ROT_STEPS \<Longrightarrow> SIN_LUT ! i = sin (real i * 0.05)"
  by (simp add: SIN_LUT_def)

lemma COS_LUT_nth: "i < ROT_STEPS \<Longrightarrow> COS_LUT ! i = cos (real i * 0.05)"
  by (simp add: COS_LUT_def)

lemma lut_unit: "i < ROT_STEPS \<Longrightarrow> (SIN_LUT ! i)\<^sup>2 + (COS_LUT ! i)\<^sup>2 = 1"
  by (simp add: SIN_LUT_nth COS_LUT_nth)

lemma to_world_to_local:
  assumes "s\<^sup>2 + c\<^sup>2 = (1::real)"
  shows "(case to_local s c dx dy of (lx, ly) \<Rightarrow> to_world s c lx ly) = (dx, dy)"
proof -
  have a: "(dx * c + dy * s) * c - (- dx * s + dy * c) * s = dx * (s\<^sup>2 + c\<^sup>2)"
    by (simp add: algebra_simps power2_eq_square)
  have b: "(dx * c + dy * s) * s + (- dx * s + dy * c) * c = dy * (s\<^sup>2 + c\<^sup>2)"
    by (simp add: algebra_simps power2_eq_square)
  show ?thesis unfolding to_local_def to_world_def prod.case a b assms by simp
qed

lemma to_local_to_world:
  assumes "s\<^sup>2 + c\<^sup>2 = (1::real)"
  shows "(case to_world s c rx ry of (wx, wy) \<Rightarrow> to_local s c wx wy) = (rx, ry)"
proof -
  have a: "(rx * c - ry * s) * c + (rx * s + ry * c) * s = rx * (s\<^sup>2 + c\<^sup>2)"
    by (simp add: algebra_simps power2_eq_square)
  have b: "- (rx * c - ry * s) * s + (rx * s + ry * c) * c = ry * (s\<^sup>2 + c\<^sup>2)"
    by (simp add: algebra_simps power2_eq_square)
  show ?thesis unfolding to_local_def to_world_def prod.case a b assms by simp
qed

text \<open>
  Claim C8: for every index of the tables, the inverse rotation of lines 220 and 221
  followed by the forward rotation of lines 293 and 294 gives back the point it started
  from, and so does the forward rotation followed by the inverse one. Over the reals
  the two are exact inverses, the tolerance is zero.
\<close>

theorem rotation_round_trip:
  "i < ROT_STEPS \<Longrightarrow>
     (case to_local (SIN_LUT ! i) (COS_LUT ! i) dx dy of
        (lx, ly) \<Rightarrow> to_world (SIN_LUT ! i) (COS_LUT ! i) lx ly) = (dx, dy) \<and>
     (case to_world (SIN_LUT ! i) (COS_LUT ! i) dx dy of
        (wx, wy) \<Rightarrow> to_local (SIN_LUT ! i) (COS_LUT ! i) wx wy) = (dx, dy)"
  by (simp only: to_world_to_local [OF lut_unit] to_local_to_world [OF lut_unit])

theorem rotation_round_trip_witness:
  "(0::nat) < ROT_STEPS \<and>
     (case to_local (SIN_LUT ! 0) (COS_LUT ! 0) 3 (- 7) of
        (lx, ly) \<Rightarrow> to_world (SIN_LUT ! 0) (COS_LUT ! 0) lx ly) = (3, - 7)"
  using rotation_round_trip [of 0 3 "- 7"] by (simp add: ROT_STEPS_def)

subsection \<open>Reset\<close>

text \<open>
  Claim C9: \<^verbatim>\<open>start\<close> called twice in a row leaves the state that one call leaves: the
  activity flags of both pools, the ground heights, the angle index and the tick counter
  are the same, and so is everything else but the time stamp that each call reads from
  the clock.
\<close>

theorem start_twice:
  "start h t2 (start h t1 s) = (start h t1 s)\<lparr>start_time := t2\<rparr> \<and>
   sn_act (start h t2 (start h t1 s)) = sn_act (start h t1 s) \<and>
   pl_act (start h t2 (start h t1 s)) = pl_act (start h t1 s) \<and>
   ground (start h t2 (start h t1 s)) = ground (start h t1 s) \<and>
   a_idx (start h t2 (start h t1 s)) = a_idx (start h t1 s) \<and>
   tick (start h t2 (start h t1 s)) = tick (start h t1 s)"
  by (simp add: start_def Let_def clear_flags_idem)

subsection \<open>Free slots and the concrete state\<close>

lemma first_free_Some:
  "first_free acts n = Some i \<Longrightarrow> i < n \<and> \<not> acts ! i \<and> (\<forall>j<i. acts ! j)"
  by (auto simp: first_free_def find_Some_iff)


lemma first_free_0: "0 < n \<Longrightarrow> \<not> acts ! 0 \<Longrightarrow> first_free acts n = Some 0"
  by (cases n) (auto simp: first_free_def upt_conv_Cons simp del: upt_Suc)

lemma fresh_eq:
  "fresh = \<lparr>SCREEN_W = 320, SCREEN_H = 240, CX = 160, CY = 120, GROUND_CHUNKS = 81,
     stage = 0, start_time = 0, a_idx = 0, rot = False, ground = replicate 81 240, tick = 0,
     sn_act = replicate MAX_SNOW False, sn_x = replicate MAX_SNOW 0,
     sn_y = replicate MAX_SNOW 0, sn_vx = replicate MAX_SNOW 0,
     sn_vy = replicate MAX_SNOW 0, sn_px = replicate MAX_SNOW 0,
     sn_py = replicate MAX_SNOW 0,
     pl_act = replicate MAX_PILE False, pl_rx = replicate MAX_PILE 0,
     pl_ry = replicate MAX_PILE 0, pl_sv = replicate MAX_PILE 0,
     pl_edge = replicate MAX_PILE 0\<rparr>"
  by (simp add: fresh_def start_def boot_def demo_host_def Let_def clear_flags_full)

lemma wf_fresh: "wf fresh"
  by (simp add: fresh_def wf_start_boot)

subsection \<open>Landing on the logo\<close>

lemma min4_first:
  fixes a b c d :: real
  shows "min (min (min a b) c) d = a \<longleftrightarrow> a \<le> b \<and> a \<le> c \<and> a \<le> d"
    and "min (min (min a b) c) d = b \<longleftrightarrow> b \<le> a \<and> b \<le> c \<and> b \<le> d"
    and "min (min (min a b) c) d = c \<longleftrightarrow> c \<le> a \<and> c \<le> b \<and> c \<le> d"
  by (auto simp: min_def)

lemma first_of_four:
  fixes a b c d :: real
  shows "hd (filter (\<lambda>e. list_all (\<lambda>e'. f e \<le> f e') [Top, Bottom, Left, Right])
                [Top, Bottom, Left, Right]) =
      (if f Top \<le> f Bottom \<and> f Top \<le> f Left \<and> f Top \<le> (f Right :: real) then Top
       else if f Bottom \<le> f Top \<and> f Bottom \<le> f Left \<and> f Bottom \<le> f Right then Bottom
       else if f Left \<le> f Top \<and> f Left \<le> f Bottom \<and> f Left \<le> f Right then Left
       else Right)"
proof -
  have tot: "\<not> (f Top \<le> f Bottom \<and> f Top \<le> f Left \<and> f Top \<le> f Right) \<Longrightarrow>
             \<not> (f Bottom \<le> f Top \<and> f Bottom \<le> f Left \<and> f Bottom \<le> f Right) \<Longrightarrow>
             \<not> (f Left \<le> f Top \<and> f Left \<le> f Bottom \<and> f Left \<le> f Right) \<Longrightarrow>
             f Right \<le> f Top \<and> f Right \<le> f Bottom \<and> f Right \<le> f Left"
    by linarith
  show ?thesis using tot by (simp split: if_splits)
qed

lemma spec_nearest_edge_chain:
  "spec_nearest_edge lx ly =
      (if edge_dist lx ly Top \<le> edge_dist lx ly Bottom \<and> edge_dist lx ly Top \<le> edge_dist lx ly Left
          \<and> edge_dist lx ly Top \<le> edge_dist lx ly Right then Top
       else if edge_dist lx ly Bottom \<le> edge_dist lx ly Top \<and> edge_dist lx ly Bottom \<le> edge_dist lx ly Left
          \<and> edge_dist lx ly Bottom \<le> edge_dist lx ly Right then Bottom
       else if edge_dist lx ly Left \<le> edge_dist lx ly Top \<and> edge_dist lx ly Left \<le> edge_dist lx ly Bottom
          \<and> edge_dist lx ly Left \<le> edge_dist lx ly Right then Left
       else Right)"
  unfolding spec_nearest_edge_def by (rule first_of_four)

lemma snap_spec:
  "snap lx ly = (fst (spec_snap lx ly (spec_nearest_edge lx ly)),
                 snd (spec_snap lx ly (spec_nearest_edge lx ly)),
                 edge_code (spec_nearest_edge lx ly))"
proof -
  have sn: "snap lx ly =
      (if edge_dist lx ly Top \<le> edge_dist lx ly Bottom \<and> edge_dist lx ly Top \<le> edge_dist lx ly Left
          \<and> edge_dist lx ly Top \<le> edge_dist lx ly Right then (lx, L_TOP, 0)
       else if edge_dist lx ly Bottom \<le> edge_dist lx ly Top \<and> edge_dist lx ly Bottom \<le> edge_dist lx ly Left
          \<and> edge_dist lx ly Bottom \<le> edge_dist lx ly Right then (lx, L_BOT, 1)
       else if edge_dist lx ly Left \<le> edge_dist lx ly Top \<and> edge_dist lx ly Left \<le> edge_dist lx ly Bottom
          \<and> edge_dist lx ly Left \<le> edge_dist lx ly Right then (L_LEFT, ly, 2)
       else (L_RIGHT, ly, 3))"
    unfolding snap_def Let_def edge_dist.simps by (simp only: min4_first)
  show ?thesis unfolding sn spec_nearest_edge_chain by simp
qed

lemma spec_nearest_min: "edge_dist lx ly (spec_nearest_edge lx ly) \<le> edge_dist lx ly e"
proof -
  define f where "f = edge_dist lx ly"
  have "f (if f Top \<le> f Bottom \<and> f Top \<le> f Left \<and> f Top \<le> f Right then Top
       else if f Bottom \<le> f Top \<and> f Bottom \<le> f Left \<and> f Bottom \<le> f Right then Bottom
       else if f Left \<le> f Top \<and> f Left \<le> f Bottom \<and> f Left \<le> f Right then Left
       else Right) \<le> f e"
    by (cases e) (simp_all, linarith+)
  then show ?thesis unfolding spec_nearest_edge_chain f_def .
qed

lemma spec_tie_top:
  "edge_dist lx ly Top \<le> edge_dist lx ly Bottom \<Longrightarrow> edge_dist lx ly Top \<le> edge_dist lx ly Left \<Longrightarrow>
   edge_dist lx ly Top \<le> edge_dist lx ly Right \<Longrightarrow> spec_nearest_edge lx ly = Top"
  unfolding spec_nearest_edge_chain by simp

lemma pile_alloc_slot:
  assumes "wf s" "first_free (pl_act s) MAX_PILE = Some p"
  shows "pl_act (pile_alloc lx ly s) ! p \<and> pl_sv (pile_alloc lx ly s) ! p = 0 \<and>
         pl_edge (pile_alloc lx ly s) ! p = edge_code (spec_nearest_edge lx ly) \<and>
         (pl_rx (pile_alloc lx ly s) ! p, pl_ry (pile_alloc lx ly s) ! p) =
            spec_snap lx ly (spec_nearest_edge lx ly)"
proof -
  have p: "p < MAX_PILE" using first_free_Some [OF assms(2)] by simp
  show ?thesis using assms(1) p
    by (simp add: pile_alloc_def assms(2) snap_spec wf_def)
qed

text \<open>
  Claim C4: when the flake's position in the logo's frame lies inside the rectangle, the
  body test succeeds and the edge it picks is the one at minimum perpendicular distance,
  the first of Top, Bottom, Left, Right among equals. The pile slot it fills (the first
  free one) gets sliding velocity 0, the picked edge, and the coordinate across that edge
  set to the edge's boundary. A flake as far from Top as from Left, no edge being nearer,
  goes to Top.
\<close>

theorem body_collision_edge:
  assumes "wf s"
      and "to_local sa ca (x - real_of_int (CX s)) (y - real_of_int (CY s)) = (lx, ly)"
      and "L_LEFT \<le> lx" "lx \<le> L_RIGHT" "L_TOP \<le> ly" "ly \<le> L_BOT"
      and "first_free (pl_act s) MAX_PILE = Some p"
  shows "snd (body_test sa ca x y s) \<and>
         (\<forall>e. edge_dist lx ly (spec_nearest_edge lx ly) \<le> edge_dist lx ly e) \<and>
         pl_act (fst (body_test sa ca x y s)) ! p \<and>
         pl_sv (fst (body_test sa ca x y s)) ! p = 0 \<and>
         pl_edge (fst (body_test sa ca x y s)) ! p = edge_code (spec_nearest_edge lx ly) \<and>
         (pl_rx (fst (body_test sa ca x y s)) ! p, pl_ry (fst (body_test sa ca x y s)) ! p) =
            spec_snap lx ly (spec_nearest_edge lx ly) \<and>
         (edge_dist lx ly Top = edge_dist lx ly Left \<and>
          edge_dist lx ly Top \<le> edge_dist lx ly Bottom \<and>
          edge_dist lx ly Top \<le> edge_dist lx ly Right \<longrightarrow>
            spec_nearest_edge lx ly = Top \<and>
            pl_edge (fst (body_test sa ca x y s)) ! p = 0 \<and>
            pl_ry (fst (body_test sa ca x y s)) ! p = L_TOP \<and>
            pl_rx (fst (body_test sa ca x y s)) ! p = lx)"
proof -
  have b: "body_test sa ca x y s = (pile_alloc lx ly s, True)"
    using assms(2-6) by (simp add: body_test_def Let_def)
  note a = pile_alloc_slot [OF assms(1) assms(7), of lx ly]
  have t: "edge_dist lx ly Top = edge_dist lx ly Left \<and>
          edge_dist lx ly Top \<le> edge_dist lx ly Bottom \<and>
          edge_dist lx ly Top \<le> edge_dist lx ly Right \<longrightarrow> spec_nearest_edge lx ly = Top"
    using spec_tie_top [of lx ly] by simp
  show ?thesis using a t by (auto simp: b spec_nearest_min)
qed

theorem body_collision_edge_witness:
  "wf fresh \<and> to_local 0 1 (120 - real_of_int (CX fresh)) (113 - real_of_int (CY fresh)) = (- 40, - 7) \<and>
   first_free (pl_act fresh) MAX_PILE = Some 0 \<and>
   edge_dist (- 40) (- 7) Top = edge_dist (- 40) (- 7) Left \<and>
   pl_edge (fst (body_test 0 1 120 113 fresh)) ! 0 = 0 \<and>
   pl_ry (fst (body_test 0 1 120 113 fresh)) ! 0 = - 12 \<and>
   pl_rx (fst (body_test 0 1 120 113 fresh)) ! 0 = - 40 \<and>
   pl_sv (fst (body_test 0 1 120 113 fresh)) ! 0 = 0"
proof -
  have l: "to_local 0 1 (120 - real_of_int (CX fresh)) (113 - real_of_int (CY fresh)) = (- 40, - 7)"
    by (simp add: fresh_eq to_local_def)
  have f: "first_free (pl_act fresh) MAX_PILE = Some 0"
    by (rule first_free_0) (simp_all add: fresh_eq MAX_PILE_def)
  have i: "L_LEFT \<le> - 40" "- 40 \<le> L_RIGHT" "L_TOP \<le> - 7" "- 7 \<le> L_BOT"
    by (simp_all add: L_LEFT_def L_RIGHT_def L_TOP_def L_BOT_def)
  show ?thesis
    using body_collision_edge [OF wf_fresh l i f] l f wf_fresh
    by (simp add: L_LEFT_def L_RIGHT_def L_TOP_def L_BOT_def)
qed

subsection \<open>Landing on the ground\<close>

lemma spawn_fresh:
  "spawn inp fresh =
     fresh\<lparr>sn_act := (sn_act fresh)[0 := True],
            sn_x := (sn_x fresh)[0 := real_of_int (r_x inp)],
            sn_y := (sn_y fresh)[0 := - 5],
            sn_vx := (sn_vx fresh)[0 := r_vx inp],
            sn_vy := (sn_vy fresh)[0 := r_vy inp],
            sn_px := (sn_px fresh)[0 := real_of_int (r_x inp)],
            sn_py := (sn_py fresh)[0 := - 5]\<rparr>"
proof -
  have "first_free (sn_act fresh) MAX_SNOW = Some 0"
    by (rule first_free_0) (simp_all add: fresh_eq MAX_SNOW_def)
  then show ?thesis by (simp add: spawn_def)
qed

text \<open>
  Claim C5: the ground test of lines 212 to 215 succeeds exactly when the column lies in
  \<open>[0, chunk count)\<close> and the flake's bottom has reached the column's height; it then
  lowers that one height by exactly 4. When it fails, an out-of-range column included,
  the state is untouched and the flake goes on to the body test: the loop body is then
  the body test followed by lines 245 and 246.
\<close>

theorem ground_test_spec:
  "(snd (ground_test c yb s) \<longleftrightarrow>
      0 \<le> c \<and> c < GROUND_CHUNKS s \<and> real_of_int (ground s ! nat c) \<le> yb) \<and>
   (snd (ground_test c yb s) \<longrightarrow>
      fst (ground_test c yb s) = s\<lparr>ground := (ground s)[nat c := ground s ! nat c - 4]\<rparr>) \<and>
   (snd (ground_test c yb s) \<and> wf s \<longrightarrow>
      ground (fst (ground_test c yb s)) ! nat c = ground s ! nat c - 4) \<and>
   (\<not> snd (ground_test c yb s) \<longrightarrow> fst (ground_test c yb s) = s) \<and>
   (sn_act s ! i \<and> integrate i s = (s1, x, y) \<and> \<not> snd (ground_test (chunk_of x) (y + 4) s1) \<longrightarrow>
      snow_step sa ca i s = retire i y (body_test sa ca x y s1))"
  by (auto simp: ground_test_def wf_def snow_step_def)

theorem ground_test_spec_witness:
  "snd (ground_test 25 240 fresh) \<and> wf fresh \<and>
   ground (fst (ground_test 25 240 fresh)) ! nat 25 = 236 \<and>
   \<not> snd (ground_test 81 240 fresh) \<and> fst (ground_test 81 240 fresh) = fresh \<and>
   \<not> snd (ground_test 25 239 fresh) \<and> fst (ground_test 25 239 fresh) = fresh \<and>
   sn_act (spawn demo_flake fresh) ! 0 \<and>
   \<not> snd (ground_test (chunk_of 100) (- 221 / 50 + 4) (fst (integrate 0 (spawn demo_flake fresh)))) \<and>
   snow_step 0 1 0 (spawn demo_flake fresh) =
     retire 0 (- 221 / 50) (body_test 0 1 100 (- 221 / 50) (fst (integrate 0 (spawn demo_flake fresh))))"
proof -
  have g: "ground fresh ! 25 = 240" "GROUND_CHUNKS fresh = 81" "length (ground fresh) = 81" by (simp_all add: fresh_eq)
  have a: "sn_act (spawn demo_flake fresh) ! 0"
    unfolding spawn_fresh by (simp add: fresh_eq MAX_SNOW_def)
  have i: "integrate 0 (spawn demo_flake fresh) =
             (fst (integrate 0 (spawn demo_flake fresh)), 100, - 221 / 50)"
    unfolding spawn_fresh by (simp add: integrate_def Let_def fresh_eq MAX_SNOW_def demo_flake_def GRAVITY_def)
  have c: "chunk_of 100 = 25" by (simp add: chunk_of_def py_int_def drop_bit_eq_div)
  have gi: "ground (fst (integrate 0 (spawn demo_flake fresh))) ! 25 = 240"
           "GROUND_CHUNKS (fst (integrate 0 (spawn demo_flake fresh))) = 81"
    unfolding spawn_fresh by (simp_all add: integrate_def Let_def fresh_eq)
  have n: "\<not> snd (ground_test (chunk_of 100) (- 221 / 50 + 4) (fst (integrate 0 (spawn demo_flake fresh))))"
    by (simp add: ground_test_def c gi)
  have t1: "snd (ground_test 25 240 fresh) \<and> ground (fst (ground_test 25 240 fresh)) ! nat 25 = 236"
    using ground_test_spec [of 25 240 fresh 0 fresh 0 0 0 0] wf_fresh g by simp
  have t2: "\<not> snd (ground_test 81 240 fresh) \<and> fst (ground_test 81 240 fresh) = fresh"
    using ground_test_spec [of 81 240 fresh 0 fresh 0 0 0 0] g by simp
  have t3: "\<not> snd (ground_test 25 239 fresh) \<and> fst (ground_test 25 239 fresh) = fresh"
    using ground_test_spec [of 25 239 fresh 0 fresh 0 0 0 0] g by simp
  have t4: "snow_step 0 1 0 (spawn demo_flake fresh) =
     retire 0 (- 221 / 50) (body_test 0 1 100 (- 221 / 50) (fst (integrate 0 (spawn demo_flake fresh))))"
    using ground_test_spec [of 0 0 "spawn demo_flake fresh" 0
        "fst (integrate 0 (spawn demo_flake fresh))" 100 "- 221 / 50" 0 1] a i n
    by simp
  show ?thesis using t1 t2 t3 t4 a n wf_fresh by simp
qed

subsection \<open>Exhausted pools\<close>















subsection \<open>The angle of a frame\<close>

text \<open>Neither pass reads the stored angle index: changing it before a pass or after it
  comes to the same.\<close>

lemma melt_a_idx: "melt (s\<lparr>a_idx := k\<rparr>) = (melt s)\<lparr>a_idx := k\<rparr>"
  by (simp add: melt_def)

lemma spawn_a_idx: "spawn inp (s\<lparr>a_idx := k\<rparr>) = (spawn inp s)\<lparr>a_idx := k\<rparr>"
  by (simp add: spawn_def split: option.splits)

lemma integrate_a_idx:
  "integrate i (s\<lparr>a_idx := k\<rparr>) = (case integrate i s of (s1, x, y) \<Rightarrow> (s1\<lparr>a_idx := k\<rparr>, x, y))"
  by (simp add: integrate_def Let_def)

lemma ground_test_a_idx:
  "ground_test c yb (s\<lparr>a_idx := k\<rparr>) = (case ground_test c yb s of (s1, l) \<Rightarrow> (s1\<lparr>a_idx := k\<rparr>, l))"
  by (simp add: ground_test_def)

lemma pile_alloc_a_idx: "pile_alloc lx ly (s\<lparr>a_idx := k\<rparr>) = (pile_alloc lx ly s)\<lparr>a_idx := k\<rparr>"
  by (simp add: pile_alloc_def split: option.splits prod.splits)

lemma body_test_a_idx:
  "body_test sa ca x y (s\<lparr>a_idx := k\<rparr>) = (case body_test sa ca x y s of (s1, l) \<Rightarrow> (s1\<lparr>a_idx := k\<rparr>, l))"
  by (simp add: body_test_def Let_def pile_alloc_a_idx split: prod.splits)

lemma retire_a_idx:
  "retire i y (case r of (s1, l) \<Rightarrow> (s1\<lparr>a_idx := k\<rparr>, l)) = (retire i y r)\<lparr>a_idx := k\<rparr>"
  by (cases r) (simp add: retire_def)

lemma snow_step_a_idx: "snow_step sa ca i (s\<lparr>a_idx := k\<rparr>) = (snow_step sa ca i s)\<lparr>a_idx := k\<rparr>"
proof (cases "sn_act s ! i")
  case False
  then show ?thesis by (simp add: snow_step_def)
next
  case True
  obtain s1 x y where i: "integrate i s = (s1, x, y)" by (cases "integrate i s") auto
  obtain s2 l where g: "ground_test (chunk_of x) (y + 4) s1 = (s2, l)"
    by (cases "ground_test (chunk_of x) (y + 4) s1") auto
  show ?thesis
  proof (cases l)
    case True
    with \<open>sn_act s ! i\<close> show ?thesis
      by (simp add: snow_step_def integrate_a_idx i ground_test_a_idx g retire_def)
  next
    case False
    have "retire i y (body_test sa ca x y (s2\<lparr>a_idx := k\<rparr>)) = (retire i y (body_test sa ca x y s2))\<lparr>a_idx := k\<rparr>"
      by (simp only: body_test_a_idx retire_a_idx)
    with False \<open>sn_act s ! i\<close> show ?thesis
      by (simp add: snow_step_def integrate_a_idx i ground_test_a_idx g)
  qed
qed

lemma fold_a_idx:
  "(\<And>i s. f i (s\<lparr>a_idx := k\<rparr>) = (f i s)\<lparr>a_idx := k\<rparr>) \<Longrightarrow>
     fold f is (s\<lparr>a_idx := k\<rparr>) = (fold f is s)\<lparr>a_idx := k\<rparr>"
  by (induction "is" arbitrary: s) simp_all

lemma snow_pass_a_idx: "snow_pass sa ca (s\<lparr>a_idx := k\<rparr>) = (snow_pass sa ca s)\<lparr>a_idx := k\<rparr>"
  unfolding snow_pass_def by (rule fold_a_idx) (rule snow_step_a_idx)

lemma slide_a_idx:
  "slide gx gy p (s\<lparr>a_idx := k\<rparr>) = (case slide gx gy p s of (s1, r) \<Rightarrow> (s1\<lparr>a_idx := k\<rparr>, r))"
  by (simp add: slide_def Let_def)

lemma fall_off_a_idx: "fall_off sa ca p e sv (s\<lparr>a_idx := k\<rparr>) = (fall_off sa ca p e sv s)\<lparr>a_idx := k\<rparr>"
  by (simp add: fall_off_def Let_def split: option.splits prod.splits)

lemma pile_step_a_idx:
  "pile_step sa ca gx gy p (s\<lparr>a_idx := k\<rparr>) = (pile_step sa ca gx gy p s)\<lparr>a_idx := k\<rparr>"
proof -
  obtain s1 sv f where sl: "slide gx gy p s = (s1, sv, f)" by (cases "slide gx gy p s") auto
  have c: "s1\<lparr>a_idx := k, pl_sv := (pl_sv s1)[p := sv]\<rparr> = s1\<lparr>pl_sv := (pl_sv s1)[p := sv]\<rparr>\<lparr>a_idx := k\<rparr>"
    by simp
  have "fall_off sa ca p (pl_edge s ! p) sv (s1\<lparr>a_idx := k, pl_sv := (pl_sv s1)[p := sv]\<rparr>) =
        (fall_off sa ca p (pl_edge s ! p) sv (s1\<lparr>pl_sv := (pl_sv s1)[p := sv]\<rparr>))\<lparr>a_idx := k\<rparr>"
    unfolding c by (rule fall_off_a_idx)
  then show ?thesis by (simp add: pile_step_def slide_a_idx sl Let_def)
qed

lemma pile_pass_a_idx: "pile_pass sa ca (s\<lparr>a_idx := k\<rparr>) = (pile_pass sa ca s)\<lparr>a_idx := k\<rparr>"
  unfolding pile_pass_def Let_def by (rule fold_a_idx) (rule pile_step_a_idx)

lemma simulate_rot:
  assumes "rot t"
  shows "simulate inp (a_idx t) sa ca t =
          (let s0 = t\<lparr>tick := tick t + 1\<rparr>;
               s1 = (if tick s0 mod MELT_RATE = 0 then melt s0 else s0);
               s2 = (if r_spawn inp < 0.4 then spawn inp s1 else s1)
           in (pile_pass sa ca (snow_pass sa ca s2))\<lparr>a_idx := (a_idx t + 1) mod ROT_STEPS\<rparr>)"
proof -
  have r: "\<And>u. rot (melt u) = rot u" "\<And>u. rot (spawn inp u) = rot u"
    by (simp_all add: melt_def spawn_def split: option.splits)
  show ?thesis using assms
    by (simp add: simulate_def early_def Let_def r snow_pass_a_idx pile_pass_a_idx)
qed

text \<open>
  Claim C10: in a frame that simulates with rotation switched on (it was on and the
  \<open>g\<close> key is not down, or it was off and the key is down), the collision pass and the
  edge-slide pass are run with the sine and cosine of the angle index that the state had
  when the frame began, and the only thing the advance changes is the stored index,
  which is one further, modulo the table size, when the frame ends.
\<close>

theorem angle_cached:
  assumes "button inp \<noteq> BUTTON_BACK h" "button inp \<noteq> BUTTON_ESCAPE h" "button inp \<noteq> BUTTON_R"
      and "stage s = 1" and "rot s \<noteq> (button inp = BUTTON_G)"
  shows "(let s0 = s\<lparr>rot := True, tick := tick s + 1\<rparr>;
              s1 = (if tick s0 mod MELT_RATE = 0 then melt s0 else s0);
              s2 = (if r_spawn inp < 0.4 then spawn inp s1 else s1);
              s_ang = SIN_LUT ! a_idx s; c_ang = COS_LUT ! a_idx s
          in run h inp s =
               (pile_pass s_ang c_ang (snow_pass s_ang c_ang s2))
                 \<lparr>a_idx := (a_idx s + 1) mod ROT_STEPS\<rparr>)"
proof -
  have "run h inp s =
          simulate inp (a_idx (s\<lparr>rot := True\<rparr>)) (SIN_LUT ! a_idx s) (COS_LUT ! a_idx s) (s\<lparr>rot := True\<rparr>)"
  proof (cases "button inp = BUTTON_G")
    case True
    then have "\<not> rot s" using assms(5) by simp
    then show ?thesis using assms(1-4) True by (simp add: run_def Let_def)
  next
    case False
    then have "rot s" using assms(5) by simp
    then have e: "s\<lparr>rot := True\<rparr> = s" by simp
    show ?thesis unfolding e using assms(1-4) False by (simp add: run_def Let_def)
  qed
  also have "\<dots> = (let s0 = s\<lparr>rot := True\<rparr>\<lparr>tick := tick (s\<lparr>rot := True\<rparr>) + 1\<rparr>;
               s1 = (if tick s0 mod MELT_RATE = 0 then melt s0 else s0);
               s2 = (if r_spawn inp < 0.4 then spawn inp s1 else s1)
           in (pile_pass (SIN_LUT ! a_idx s) (COS_LUT ! a_idx s)
                (snow_pass (SIN_LUT ! a_idx s) (COS_LUT ! a_idx s) s2))
                \<lparr>a_idx := (a_idx (s\<lparr>rot := True\<rparr>) + 1) mod ROT_STEPS\<rparr>)"
    by (rule simulate_rot) simp
  finally show ?thesis by (simp add: Let_def)
qed

theorem angle_cached_witness:
  "button demo_flake \<noteq> BUTTON_BACK demo_host \<and> button demo_flake \<noteq> BUTTON_ESCAPE demo_host \<and>
   button demo_flake \<noteq> BUTTON_R \<and> stage (fresh\<lparr>stage := 1, rot := True\<rparr>) = 1 \<and>
   rot (fresh\<lparr>stage := 1, rot := True\<rparr>) \<noteq> (button demo_flake = BUTTON_G) \<and>
   a_idx (fresh\<lparr>stage := 1, rot := True\<rparr>) = 0 \<and>
   run demo_host demo_flake (fresh\<lparr>stage := 1, rot := True\<rparr>) =
     (pile_pass (SIN_LUT ! 0) (COS_LUT ! 0) (snow_pass (SIN_LUT ! 0) (COS_LUT ! 0)
        (spawn demo_flake (fresh\<lparr>stage := 1, rot := True, tick := 1\<rparr>))))\<lparr>a_idx := 1\<rparr>"
proof -
  have b: "button demo_flake \<noteq> BUTTON_BACK demo_host" "button demo_flake \<noteq> BUTTON_ESCAPE demo_host"
    "button demo_flake \<noteq> BUTTON_R" "button demo_flake \<noteq> BUTTON_G"
    by (simp_all add: demo_flake_def demo_host_def BUTTON_R_def BUTTON_G_def)
  have f: "a_idx fresh = 0" "tick fresh = 0" by (simp_all add: fresh_eq)
  have r: "r_spawn demo_flake < 0.4" by (simp add: demo_flake_def)
  show ?thesis
    using angle_cached [of demo_flake demo_host "fresh\<lparr>stage := 1, rot := True\<rparr>"] b f r
    by (simp add: Let_def MELT_RATE_def ROT_STEPS_def)
qed

subsection \<open>What each pass leaves alone\<close>

lemma fold_keeps:
  "(\<And>i s. i \<in> set is \<Longrightarrow> I s \<Longrightarrow> I (f i s) \<and> g (f i s) = g s) \<Longrightarrow> I s \<Longrightarrow>
     I (fold f is s) \<and> g (fold f is s) = g s"
proof (induction "is" arbitrary: s)
  case Nil
  then show ?case by simp
next
  case (Cons a "is")
  have 1: "I (f a s) \<and> g (f a s) = g s" using Cons.prems by simp
  have 2: "I (fold f is (f a s)) \<and> g (fold f is (f a s)) = g (f a s)"
    by (rule Cons.IH) (use Cons.prems 1 in auto)
  show ?case using 1 2 by simp
qed

lemma ctl_melt: "ctl (melt s) = ctl s"
  by (simp add: ctl_def melt_def)

lemma ctl_spawn: "ctl (spawn inp s) = ctl s"
  by (simp add: ctl_def spawn_def split: option.splits)

lemma ctl_integrate: "ctl (fst (integrate i s)) = ctl s"
  by (simp add: ctl_def integrate_def Let_def)

lemma ctl_ground_test: "ctl (fst (ground_test c y s)) = ctl s"
  by (simp add: ctl_def ground_test_def)

lemma ctl_body_test: "ctl (fst (body_test sa ca x y s)) = ctl s"
  by (simp add: ctl_def body_test_def pile_alloc_def Let_def split: prod.splits option.splits)

lemma ctl_retire: "ctl (retire i y r) = ctl (fst r)"
  by (cases r) (simp add: ctl_def retire_def)

lemma ctl_snow_step: "ctl (snow_step sa ca i s) = ctl s"
proof (cases "sn_act s ! i")
  case False
  then show ?thesis by (simp add: snow_step_def)
next
  case True
  obtain s1 x y where i: "integrate i s = (s1, x, y)" by (cases "integrate i s") auto
  obtain s2 l where g: "ground_test (chunk_of x) (y + 4) s1 = (s2, l)"
    by (cases "ground_test (chunk_of x) (y + 4) s1") auto
  have 1: "ctl s1 = ctl s" using ctl_integrate [of i s] i by simp
  have 2: "ctl s2 = ctl s1" using ctl_ground_test [of "chunk_of x" "y + 4" s1] g by simp
  show ?thesis using True 1 2
    by (simp add: snow_step_def i g ctl_retire ctl_body_test)
qed

lemma ctl_snow_pass: "ctl (snow_pass sa ca s) = ctl s"
  unfolding snow_pass_def
  using fold_keeps [of "[0..<MAX_SNOW]" "\<lambda>_. True" "snow_step sa ca" ctl s]
  by (simp add: ctl_snow_step)

lemma ctl_slide: "ctl (fst (slide gx gy p s)) = ctl s"
  by (simp add: ctl_def slide_def Let_def)

lemma ctl_fall_off: "ctl (fall_off sa ca p e sv s) = ctl s"
  by (simp add: ctl_def fall_off_def Let_def split: prod.splits option.splits)

lemma ctl_pile_step: "ctl (pile_step sa ca gx gy p s) = ctl s"
proof -
  obtain s1 sv f where sl: "slide gx gy p s = (s1, sv, f)" by (cases "slide gx gy p s") auto
  have 1: "ctl s1 = ctl s" using ctl_slide [of gx gy p s] sl by simp
  have 2: "ctl (s1\<lparr>pl_sv := (pl_sv s1)[p := sv]\<rparr>) = ctl s1" by (simp add: ctl_def)
  show ?thesis using 1 2 by (simp add: pile_step_def sl Let_def ctl_fall_off)
qed

lemma ctl_pile_pass: "ctl (pile_pass sa ca s) = ctl s"
  unfolding pile_pass_def Let_def
  using fold_keeps [of "[0..<MAX_PILE]" "\<lambda>_. True" "pile_step sa ca (sa * GRAVITY * 2) (ca * GRAVITY * 2)" ctl s]
  by (simp add: ctl_pile_step)

lemma ctlD:
  "ctl s = ctl t \<Longrightarrow> SCREEN_W s = SCREEN_W t \<and> SCREEN_H s = SCREEN_H t \<and> CX s = CX t \<and> CY s = CY t \<and>
     GROUND_CHUNKS s = GROUND_CHUNKS t \<and> stage s = stage t \<and> start_time s = start_time t \<and>
     a_idx s = a_idx t \<and> rot s = rot t \<and> tick s = tick t"
  by (simp add: ctl_def)

text \<open>A pile slot that is taken is not touched before the edge-slide pass.\<close>

lemma pslot_melt: "pslot (melt s) p = pslot s p"
  by (simp add: pslot_def melt_def)

lemma pslot_spawn: "pslot (spawn inp s) p = pslot s p"
  by (simp add: pslot_def spawn_def split: option.splits)

lemma pslot_pile_alloc: "pl_act s ! p \<Longrightarrow> pslot (pile_alloc lx ly s) p = pslot s p"
proof (cases "first_free (pl_act s) MAX_PILE")
  case None
  then show ?thesis by (simp add: pile_alloc_def)
next
  case (Some q)
  assume a: "pl_act s ! p"
  have "q \<noteq> p" using first_free_Some [OF Some] a by auto
  then show ?thesis by (simp add: pile_alloc_def Some pslot_def split: prod.splits)
qed

lemma pslot_snow_step: "pl_act s ! p \<Longrightarrow> pslot (snow_step sa ca i s) p = pslot s p"
proof (cases "sn_act s ! i")
  case False
  then show ?thesis by (simp add: snow_step_def)
next
  case True
  assume a: "pl_act s ! p"
  obtain s1 x y where i: "integrate i s = (s1, x, y)" by (cases "integrate i s") auto
  obtain s2 l where g: "ground_test (chunk_of x) (y + 4) s1 = (s2, l)"
    by (cases "ground_test (chunk_of x) (y + 4) s1") auto
  have 1: "pslot s1 p = pslot s p" using i by (auto simp: integrate_def Let_def pslot_def)
  have 2: "pslot s2 p = pslot s1 p" using g by (auto simp: ground_test_def pslot_def split: if_splits)
  have a2: "pl_act s2 ! p" using a 1 2 by (simp add: pslot_def)
  have 3: "pslot (fst (body_test sa ca x y s2)) p = pslot s2 p"
    using pslot_pile_alloc [OF a2] by (simp add: body_test_def Let_def split: prod.splits)
  have 4: "\<And>r. pslot (retire i y r) p = pslot (fst r) p"
    by (simp add: retire_def pslot_def split: prod.splits)
  show ?thesis using True 1 2 3 by (simp add: snow_step_def i g 4)
qed

lemma pslot_snow_pass: "pl_act s ! p \<Longrightarrow> pslot (snow_pass sa ca s) p = pslot s p"
proof -
  assume a: "pl_act s ! p"
  have st: "\<And>i t. fst (pslot t p) \<Longrightarrow>
       fst (pslot (snow_step sa ca i t) p) \<and> pslot (snow_step sa ca i t) p = pslot t p"
  proof -
    fix i t assume "fst (pslot t p)"
    then have "pl_act t ! p" by (simp add: pslot_def)
    then have "pslot (snow_step sa ca i t) p = pslot t p" by (rule pslot_snow_step)
    with \<open>fst (pslot t p)\<close> show "fst (pslot (snow_step sa ca i t) p) \<and> pslot (snow_step sa ca i t) p = pslot t p"
      by simp
  qed
  have "fst (pslot (fold (snow_step sa ca) [0..<MAX_SNOW] s) p) \<and>
        pslot (fold (snow_step sa ca) [0..<MAX_SNOW] s) p = pslot s p"
    by (rule fold_keeps [where I = "\<lambda>t. fst (pslot t p)" and g = "\<lambda>t. pslot t p"])
       (use a st in \<open>simp_all add: pslot_def\<close>)
  then show ?thesis by (simp add: snow_pass_def)
qed

text \<open>The edge-slide pass changes a pile slot in its own step only.\<close>

lemma pslot_pile_step_other: "q \<noteq> p \<Longrightarrow> pslot (pile_step sa ca gx gy q s) p = pslot s p"
proof -
  assume n: "q \<noteq> p"
  obtain s1 sv f where sl: "slide gx gy q s = (s1, sv, f)" by (cases "slide gx gy q s") auto
  have 1: "pslot s1 p = pslot s p"
    using sl n by (auto simp: slide_def Let_def pslot_def split: if_splits)
  have 2: "pslot (s1\<lparr>pl_sv := (pl_sv s1)[q := sv]\<rparr>) p = pslot s1 p"
    using n by (simp add: pslot_def)
  have 3: "\<And>t e. pslot (fall_off sa ca q e sv t) p = pslot t p"
    using n by (simp add: fall_off_def Let_def pslot_def split: prod.splits option.splits)
  show ?thesis using 1 2 3 by (simp add: pile_step_def sl Let_def)
qed

subsection \<open>The head of a frame\<close>

lemma LUT_0: "SIN_LUT ! 0 = 0" "COS_LUT ! 0 = 1"
  by (simp_all add: SIN_LUT_def COS_LUT_def ROT_STEPS_def upt_conv_Cons del: upt_Suc)

lemma ctl_early: "ctl (early inp s) = ctl (s\<lparr>tick := tick s + 1\<rparr>)"
  using ctl_melt [of "s\<lparr>tick := tick s + 1\<rparr>"] 
  by (simp add: early_def Let_def ctl_spawn)

lemma wf_early: "wf s \<Longrightarrow> wf (early inp s)"
  by (simp add: early_def Let_def wf_melt wf_spawn)

lemma pslot_early: "pslot (early inp s) p = pslot s p"
proof -
  have "pslot (s\<lparr>tick := tick s + 1\<rparr>) p = pslot s p" by (simp add: pslot_def)
  then show ?thesis by (simp add: early_def Let_def pslot_melt pslot_spawn)
qed

lemma quiet_demo: "quiet demo_host demo_quiet"
  by (simp add: quiet_def demo_host_def demo_quiet_def BUTTON_G_def BUTTON_R_def)

subsection \<open>A single flake away from the logo\<close>

lemma fold_id: "(\<And>i. i \<in> set is \<Longrightarrow> f i s = s) \<Longrightarrow> fold f is s = s"
  by (induction "is") simp_all

lemma pile_pass_empty: "(\<forall>p<MAX_PILE. \<not> pl_act s ! p) \<Longrightarrow> pile_pass sa ca s = s"
  unfolding pile_pass_def Let_def by (rule fold_id) (simp add: pile_step_def)

lemma snow_pass_none: "(\<forall>j<MAX_SNOW. \<not> sn_act s ! j) \<Longrightarrow> snow_pass sa ca s = s"
  unfolding snow_pass_def by (rule fold_id) (simp add: snow_step_def)

lemma body_test_clear:
  assumes "sa\<^sup>2 + ca\<^sup>2 = 1" "clear_of_logo x s"
  shows "body_test sa ca x y s = (s, False)"
proof -
  define dx where "dx = x - real_of_int (CX s)"
  define dy where "dy = y - real_of_int (CY s)"
  define lx where "lx = dx * ca + dy * sa"
  define ly where "ly = - dx * sa + dy * ca"
  have n: "lx\<^sup>2 + ly\<^sup>2 = (dx\<^sup>2 + dy\<^sup>2) * (sa\<^sup>2 + ca\<^sup>2)"
    unfolding lx_def ly_def by (simp add: power2_eq_square algebra_simps)
  have far: "2169 < lx\<^sup>2 + ly\<^sup>2"
  proof -
    have "2169 < dx\<^sup>2" using assms(2)
      by (simp add: clear_of_logo_def dx_def L_LEFT_def L_TOP_def)
    also have "\<dots> \<le> dx\<^sup>2 + dy\<^sup>2" by simp
    finally show ?thesis by (simp add: n assms(1))
  qed
  have out: "\<not> (L_LEFT \<le> lx \<and> lx \<le> L_RIGHT \<and> L_TOP \<le> ly \<and> ly \<le> L_BOT)"
  proof
    assume i: "L_LEFT \<le> lx \<and> lx \<le> L_RIGHT \<and> L_TOP \<le> ly \<and> ly \<le> L_BOT"
    then have "\<bar>lx\<bar> \<le> 45" "\<bar>ly\<bar> \<le> 12"
      by (simp_all add: L_LEFT_def L_RIGHT_def L_TOP_def L_BOT_def abs_le_iff)
    then have "lx\<^sup>2 \<le> 45\<^sup>2" "ly\<^sup>2 \<le> 12\<^sup>2"
      using abs_le_square_iff [of lx 45] abs_le_square_iff [of ly 12] by simp_all
    then show False using far by simp
  qed
  have "body_test sa ca x y s =
          (if L_LEFT \<le> lx \<and> lx \<le> L_RIGHT \<and> L_TOP \<le> ly \<and> ly \<le> L_BOT
           then (pile_alloc lx ly s, True) else (s, False))"
    unfolding body_test_def Let_def to_local_def prod.case lx_def ly_def dx_def dy_def
    by (rule refl)
  then show ?thesis using out by simp
qed

lemma snow_step_clear:
  assumes "sn_act t ! i" "sa\<^sup>2 + ca\<^sup>2 = 1" "clear_of_logo (sn_x t ! i + sn_vx t ! i) t"
      and "0 \<le> chunk_of (sn_x t ! i + sn_vx t ! i)"
      and "chunk_of (sn_x t ! i + sn_vx t ! i) < GROUND_CHUNKS t"
  shows "snow_step sa ca i t =
    (let s1 = fst (integrate i t);
         c = nat (chunk_of (sn_x t ! i + sn_vx t ! i));
         y' = sn_y t ! i + (sn_vy t ! i + GRAVITY)
     in if real_of_int (ground t ! c) \<le> y' + 4
        then s1\<lparr>ground := (ground t)[c := ground t ! c - 4], sn_act := (sn_act t)[i := False]\<rparr>
        else if real_of_int (SCREEN_H t) \<le> y' then s1\<lparr>sn_act := (sn_act t)[i := False]\<rparr>
        else s1)"
proof -
  define x where "x = sn_x t ! i + sn_vx t ! i"
  define y where "y = sn_y t ! i + (sn_vy t ! i + GRAVITY)"
  define s1 where "s1 = fst (integrate i t)"
  define c where "c = nat (chunk_of x)"
  have i: "integrate i t = (s1, x, y)" by (simp add: integrate_def Let_def s1_def x_def y_def)
  have k: "ground s1 = ground t" "GROUND_CHUNKS s1 = GROUND_CHUNKS t" "SCREEN_H s1 = SCREEN_H t"
    "sn_act s1 = sn_act t" "CX s1 = CX t"
    by (simp_all add: integrate_def Let_def s1_def)
  have cl: "clear_of_logo x s1" using assms(3) by (simp add: clear_of_logo_def k x_def)
  have b: "body_test sa ca x y s1 = (s1, False)" by (rule body_test_clear [OF assms(2) cl])
  have r: "0 \<le> chunk_of x" "chunk_of x < GROUND_CHUNKS s1" using assms(4,5) by (simp_all add: x_def k)
  have "snow_step sa ca i t =
     (if real_of_int (ground t ! c) \<le> y + 4
        then s1\<lparr>ground := (ground t)[c := ground t ! c - 4], sn_act := (sn_act t)[i := False]\<rparr>
        else if real_of_int (SCREEN_H t) \<le> y then s1\<lparr>sn_act := (sn_act t)[i := False]\<rparr>
        else s1)"
  proof (cases "real_of_int (ground t ! c) \<le> y + 4")
    case True
    then have g: "ground_test (chunk_of x) (y + 4) s1 =
        (s1\<lparr>ground := (ground t)[c := ground t ! c - 4]\<rparr>, True)"
      using r by (simp add: ground_test_def k c_def)
    show ?thesis using True assms(1) by (simp add: snow_step_def i g retire_def k)
  next
    case False
    then have g: "ground_test (chunk_of x) (y + 4) s1 = (s1, False)"
      using r by (simp add: ground_test_def k c_def)
    show ?thesis using False assms(1) by (simp add: snow_step_def i g b retire_def k)
  qed
  then show ?thesis unfolding Let_def s1_def c_def x_def y_def .
qed

lemma snow_pass_single:
  assumes "i < MAX_SNOW" "\<forall>j<MAX_SNOW. j \<noteq> i \<longrightarrow> \<not> sn_act s ! j"
      and "\<forall>j<MAX_SNOW. j \<noteq> i \<longrightarrow> \<not> sn_act (snow_step sa ca i s) ! j"
  shows "snow_pass sa ca s = snow_step sa ca i s"
proof -
  have sp: "[0..<MAX_SNOW] = [0..<i] @ i # [Suc i..<MAX_SNOW]"
    using assms(1) upt_add_eq_append [of 0 i "MAX_SNOW - i"] by (simp add: upt_conv_Cons)
  have 1: "fold (snow_step sa ca) [0..<i] s = s"
    by (rule fold_id) (use assms(1,2) in \<open>simp add: snow_step_def\<close>)
  have 2: "fold (snow_step sa ca) [Suc i..<MAX_SNOW] (snow_step sa ca i s) = snow_step sa ca i s"
    by (rule fold_id) (use assms(3) in \<open>simp add: snow_step_def\<close>)
  show ?thesis unfolding snow_pass_def sp by (simp add: 1 2)
qed

subsection \<open>The ground stays at or above the floor line\<close>

lemma ground_ok_nth: "ground_ok s \<longleftrightarrow> (\<forall>c<length (ground s). ground s ! c \<le> SCREEN_H s)"
  by (simp add: ground_ok_def list_all_length)

lemma fold_melt_col_nth:
  "c < length g \<Longrightarrow>
     fold (melt_col H) [0..<n] g ! c = (if c < n \<and> g ! c < H then g ! c + 1 else g ! c)"
proof (induction n)
  case 0
  then show ?case by simp
next
  case (Suc n)
  define G where "G = fold (melt_col H) [0..<n] g"
  have l: "length G = length g" by (simp add: G_def)
  have ih: "G ! c = (if c < n \<and> g ! c < H then g ! c + 1 else g ! c)"
    unfolding G_def by (rule Suc.IH) (rule Suc.prems)
  have st: "fold (melt_col H) [0..<Suc n] g = melt_col H n G" by (simp add: G_def)
  show ?case
  proof (cases "c = n")
    case True
    then show ?thesis unfolding st using ih l Suc.prems by (simp add: melt_col_def)
  next
    case False
    then show ?thesis unfolding st using ih by (auto simp: melt_col_def)
  qed
qed

lemma melt_nth:
  "wf s \<Longrightarrow> c < length (ground s) \<Longrightarrow>
     ground (melt s) ! c = (if ground s ! c < SCREEN_H s then ground s ! c + 1 else ground s ! c)"
  by (simp add: melt_def fold_melt_col_nth wf_def)

lemma ground_ok_melt: "wf s \<Longrightarrow> ground_ok s \<Longrightarrow> ground_ok (melt s)"
proof -
  assume w: "wf s" and g: "ground_ok s"
  have h: "SCREEN_H (melt s) = SCREEN_H s" "length (ground (melt s)) = length (ground s)"
    by (simp_all add: melt_def)
  show ?thesis unfolding ground_ok_nth h
    using g melt_nth [OF w] by (auto simp: ground_ok_nth)
qed

lemma ground_ok_cong: "SCREEN_H t = SCREEN_H s \<Longrightarrow> ground t = ground s \<Longrightarrow> ground_ok t = ground_ok s"
  by (simp add: ground_ok_def)

lemma ground_ok_start: "ground_ok (start h t s)"
  by (simp add: ground_ok_def start_def Let_def list_all_length)

lemma ground_ok_spawn: "ground_ok (spawn inp s) = ground_ok s"
  by (rule ground_ok_cong) (simp_all add: spawn_def split: option.splits)

lemma ground_ok_early: "wf s \<Longrightarrow> ground_ok s \<Longrightarrow> ground_ok (early inp s)"
proof -
  assume w: "wf s" and g: "ground_ok s"
  have 1: "wf (s\<lparr>tick := tick s + 1\<rparr>)" "ground_ok (s\<lparr>tick := tick s + 1\<rparr>)"
    using w g by (simp_all add: ground_ok_def)
  show ?thesis using 1 ground_ok_melt [OF 1] g
    by (simp add: early_def Let_def ground_ok_spawn)
qed

lemma list_all_lower: "list_all (\<lambda>g. g \<le> H) xs \<Longrightarrow> list_all (\<lambda>g. g \<le> (H::int)) (xs[k := xs ! k - 4])"
proof -
  assume a: "list_all (\<lambda>g. g \<le> H) xs"
  show ?thesis unfolding list_all_length
  proof (intro allI impI)
    fix j assume j: "j < length (xs[k := xs ! k - 4])"
    then have "xs ! j \<le> H" using a by (simp add: list_all_length)
    then show "xs[k := xs ! k - 4] ! j \<le> H" using j by (cases "j = k") simp_all
  qed
qed

lemma ground_ok_ground_test: "ground_ok s \<Longrightarrow> ground_ok (fst (ground_test c y s))"
  by (simp add: ground_test_def ground_ok_def list_all_lower)

lemma ground_ok_snow_step: "ground_ok s \<Longrightarrow> ground_ok (snow_step sa ca i s)"
proof (cases "sn_act s ! i")
  case False
  then show "ground_ok s \<Longrightarrow> ?thesis" by (simp add: snow_step_def)
next
  case True
  assume g0: "ground_ok s"
  obtain s1 x y where i: "integrate i s = (s1, x, y)" by (cases "integrate i s") auto
  obtain s2 l where g: "ground_test (chunk_of x) (y + 4) s1 = (s2, l)"
    by (cases "ground_test (chunk_of x) (y + 4) s1") auto
  have 1: "ground_ok s1" using i g0 by (auto simp: integrate_def Let_def ground_ok_def)
  have 2: "ground_ok s2" using ground_ok_ground_test [OF 1, of "chunk_of x" "y + 4"] g by simp
  have 3: "ground_ok (fst (body_test sa ca x y s2))"
    using 2 by (simp add: body_test_def Let_def pile_alloc_def ground_ok_def split: prod.splits option.splits)
  have 4: "\<And>r. ground_ok (fst r) \<Longrightarrow> ground_ok (retire i y r)"
  proof -
    fix r :: "app \<times> bool" assume "ground_ok (fst r)"
    then show "ground_ok (retire i y r)" by (cases r) (simp add: retire_def ground_ok_def)
  qed
  show ?thesis using True 2 3 by (simp add: snow_step_def i g 4)
qed

lemma ground_ok_snow_pass: "ground_ok s \<Longrightarrow> ground_ok (snow_pass sa ca s)"
  unfolding snow_pass_def
  using fold_keeps [of "[0..<MAX_SNOW]" ground_ok "snow_step sa ca" "\<lambda>_. ()" s]
  by (simp add: ground_ok_snow_step)

lemma ground_pile_step: "ground (pile_step sa ca gx gy p s) = ground s"
proof -
  obtain s1 sv f where sl: "slide gx gy p s = (s1, sv, f)" by (cases "slide gx gy p s") auto
  have 1: "ground s1 = ground s" using sl by (auto simp: slide_def Let_def split: if_splits)
  have 3: "\<And>t e. ground (fall_off sa ca p e sv t) = ground t"
    by (simp add: fall_off_def Let_def split: prod.splits option.splits)
  show ?thesis using 1 by (simp add: pile_step_def sl Let_def 3)
qed

lemma ground_pile_pass: "ground (pile_pass sa ca s) = ground s"
  unfolding pile_pass_def Let_def
  using fold_keeps [of "[0..<MAX_PILE]" "\<lambda>_. True" "pile_step sa ca (sa * GRAVITY * 2) (ca * GRAVITY * 2)" ground s]
  by (simp add: ground_pile_step)

lemma ground_ok_pile_pass: "ground_ok (pile_pass sa ca s) = ground_ok s"
  by (rule ground_ok_cong) (use ctlD [OF ctl_pile_pass [of sa ca s]] in \<open>simp_all add: ground_pile_pass\<close>)

lemma ground_ok_simulate: "wf s \<Longrightarrow> ground_ok s \<Longrightarrow> ground_ok (simulate inp a sa ca s)"
proof -
  assume w: "wf s" and g: "ground_ok s"
  have e: "ground_ok (early inp s)" by (rule ground_ok_early [OF w g])
  have a: "\<And>k. ground_ok ((early inp s)\<lparr>a_idx := k\<rparr>)" using e by (simp add: ground_ok_def)
  show ?thesis unfolding simulate_def Let_def ground_ok_pile_pass
    by (rule ground_ok_snow_pass) (simp add: e a)
qed

lemma ground_ok_run: "wf s \<Longrightarrow> ground_ok s \<Longrightarrow> ground_ok (run h inp s)"
proof -
  assume w: "wf s" and g: "ground_ok s"
  have r: "\<And>b. ground_ok (s\<lparr>rot := b\<rparr>)" "\<And>b n. ground_ok (s\<lparr>rot := b, stage := n\<rparr>)"
    "\<And>n. ground_ok (s\<lparr>stage := n\<rparr>)"
    using g by (simp_all add: ground_ok_def)
  show ?thesis unfolding run_def Let_def
    by (simp add: g r w ground_ok_start ground_ok_simulate)
qed

lemma ground_ok_reachable: "reachable h s \<Longrightarrow> ground_ok s"
proof (induction rule: reachable.induct)
  case (reach_start t)
  show ?case by (rule ground_ok_start)
next
  case (reach_run s inp)
  then show ?case using wf_reachable ground_ok_run by blast
qed

lemma reachable_frames: "reachable h s \<Longrightarrow> reachable h (frames h ins s)"
  by (induction ins arbitrary: s) (simp_all add: reach_run)

lemma reachable_fresh: "reachable demo_host fresh"
  unfolding fresh_def by (rule reach_start)

lemma integrate_fields:
  "sn_act (fst (integrate i t)) = sn_act t" "pl_act (fst (integrate i t)) = pl_act t"
  "ground (fst (integrate i t)) = ground t"
  "sn_x (fst (integrate i t)) = (sn_x t)[i := sn_x t ! i + sn_vx t ! i]"
  "sn_y (fst (integrate i t)) = (sn_y t)[i := sn_y t ! i + (sn_vy t ! i + GRAVITY)]"
  "sn_vx (fst (integrate i t)) = sn_vx t"
  "sn_vy (fst (integrate i t)) = (sn_vy t)[i := sn_vy t ! i + GRAVITY]"
  by (simp_all add: integrate_def Let_def)

lemma lone_passes:
  assumes w: "wf t" and l: "lone i x y vy t" and u: "sa\<^sup>2 + ca\<^sup>2 = 1"
      and cl: "clear_of_logo x t" and c0: "0 \<le> chunk_of x" and c1: "chunk_of x < GROUND_CHUNKS t"
  shows "pile_pass sa ca (snow_pass sa ca t) = snow_step sa ca i t"
    and "real_of_int (ground t ! nat (chunk_of x)) \<le> y + (vy + GRAVITY) + 4 \<Longrightarrow>
           calm (snow_step sa ca i t) \<and>
           ground (snow_step sa ca i t) =
             (ground t)[nat (chunk_of x) := ground t ! nat (chunk_of x) - 4]"
    and "\<not> real_of_int (ground t ! nat (chunk_of x)) \<le> y + (vy + GRAVITY) + 4 \<Longrightarrow>
         real_of_int (SCREEN_H t) \<le> y + (vy + GRAVITY) \<Longrightarrow>
           calm (snow_step sa ca i t) \<and> ground (snow_step sa ca i t) = ground t"
    and "\<not> real_of_int (ground t ! nat (chunk_of x)) \<le> y + (vy + GRAVITY) + 4 \<Longrightarrow>
         \<not> real_of_int (SCREEN_H t) \<le> y + (vy + GRAVITY) \<Longrightarrow>
           lone i x (y + (vy + GRAVITY)) (vy + GRAVITY) (snow_step sa ca i t) \<and>
           ground (snow_step sa ca i t) = ground t"
proof -
  have i: "i < MAX_SNOW" and f: "sn_act t ! i" "sn_x t ! i = x" "sn_y t ! i = y" "sn_vx t ! i = 0"
    "sn_vy t ! i = vy"
    and o: "\<forall>j<MAX_SNOW. j \<noteq> i \<longrightarrow> \<not> sn_act t ! j" and e: "\<forall>p<MAX_PILE. \<not> pl_act t ! p"
    using l by (simp_all add: lone_def fslot_def)
  have len: "i < length (sn_act t)" "i < length (sn_x t)" "i < length (sn_y t)"
    "i < length (sn_vx t)" "i < length (sn_vy t)"
    using w i by (simp_all add: wf_def)
  define s1 where "s1 = fst (integrate i t)"
  have k: "sn_act s1 = sn_act t" "pl_act s1 = pl_act t" "ground s1 = ground t"
    "sn_x s1 ! i = x" "sn_y s1 ! i = y + (vy + GRAVITY)" "sn_vx s1 ! i = 0"
    "sn_vy s1 ! i = vy + GRAVITY"
    unfolding s1_def integrate_fields using len f by simp_all
  have st: "snow_step sa ca i t =
     (if real_of_int (ground t ! nat (chunk_of x)) \<le> y + (vy + GRAVITY) + 4
        then s1\<lparr>ground := (ground t)[nat (chunk_of x) := ground t ! nat (chunk_of x) - 4],
                sn_act := (sn_act t)[i := False]\<rparr>
        else if real_of_int (SCREEN_H t) \<le> y + (vy + GRAVITY)
        then s1\<lparr>sn_act := (sn_act t)[i := False]\<rparr>
        else s1)"
    using snow_step_clear [of t i sa ca] f u cl c0 c1 by (simp add: Let_def s1_def)
  have oth: "\<forall>j<MAX_SNOW. j \<noteq> i \<longrightarrow> \<not> sn_act (snow_step sa ca i t) ! j"
    using o by (simp add: st k)
  have pe: "\<forall>p<MAX_PILE. \<not> pl_act (snow_step sa ca i t) ! p"
    using e by (simp add: st k)
  show "pile_pass sa ca (snow_pass sa ca t) = snow_step sa ca i t"
    using snow_pass_single [OF i o oth] pile_pass_empty [OF pe] by simp
  show "calm (snow_step sa ca i t) \<and>
           ground (snow_step sa ca i t) =
             (ground t)[nat (chunk_of x) := ground t ! nat (chunk_of x) - 4]"
    if "real_of_int (ground t ! nat (chunk_of x)) \<le> y + (vy + GRAVITY) + 4"
    using that o e len by (auto simp: st calm_def k nth_list_update)
  show "calm (snow_step sa ca i t) \<and> ground (snow_step sa ca i t) = ground t"
    if "\<not> real_of_int (ground t ! nat (chunk_of x)) \<le> y + (vy + GRAVITY) + 4"
       "real_of_int (SCREEN_H t) \<le> y + (vy + GRAVITY)"
    using that o e len by (auto simp: st calm_def k nth_list_update)
  show "lone i x (y + (vy + GRAVITY)) (vy + GRAVITY) (snow_step sa ca i t) \<and>
           ground (snow_step sa ca i t) = ground t"
    if "\<not> real_of_int (ground t ! nat (chunk_of x)) \<le> y + (vy + GRAVITY) + 4"
       "\<not> real_of_int (SCREEN_H t) \<le> y + (vy + GRAVITY)"
    using that o e i f by (simp add: st lone_def fslot_def k)
qed

subsection \<open>Free fall, frame by frame\<close>

lemma fall_y_0: "fall_y v 0 = - 5"
  by (simp add: fall_y_def)

lemma fall_y_Suc: "fall_y v (Suc k) = fall_y v k + (v + GRAVITY * real k + GRAVITY)"
  by (simp add: fall_y_def algebra_simps)

lemma fall_y_closed: "fall_y v k = - 5 + v * real k + GRAVITY * (real k * (real k + 1) / 2)"
proof (induction k)
  case 0
  show ?case by (simp add: fall_y_0)
next
  case (Suc k)
  have "fall_y v (Suc k) = - 5 + v * real k + GRAVITY * (real k * (real k + 1) / 2)
                             + (v + GRAVITY * real k + GRAVITY)"
    by (simp only: fall_y_Suc Suc.IH)
  also have "\<dots> = - 5 + v * real (Suc k) + GRAVITY * (real (Suc k) * (real (Suc k) + 1) / 2)"
    by (simp add: field_simps)
  finally show ?case .
qed

lemma run_passes:
  assumes "quiet h inp" "stage s = 1"
  shows "run h inp s =
           (pile_pass (SIN_LUT ! a_idx s) (COS_LUT ! a_idx s)
              (snow_pass (SIN_LUT ! a_idx s) (COS_LUT ! a_idx s) (early inp s)))
           \<lparr>a_idx := (if rot s then (a_idx s + 1) mod ROT_STEPS else a_idx s)\<rparr>"
proof -
  let ?u = "pile_pass (SIN_LUT ! a_idx s) (COS_LUT ! a_idx s)
              (snow_pass (SIN_LUT ! a_idx s) (COS_LUT ! a_idx s) (early inp s))"
  have r: "rot (early inp s) = rot s" using ctlD [OF ctl_early [of inp s]] by simp
  have a: "a_idx ?u = a_idx s"
    using ctlD [OF ctl_early [of inp s]] by (simp add: ctlD [OF ctl_pile_pass] ctlD [OF ctl_snow_pass])
  have same: "?u\<lparr>a_idx := a_idx s\<rparr> = ?u" using a by simp
  have "run h inp s = simulate inp (a_idx s) (SIN_LUT ! a_idx s) (COS_LUT ! a_idx s) s"
    using assms by (simp add: run_def quiet_def Let_def)
  also have "\<dots> = ?u\<lparr>a_idx := (if rot s then (a_idx s + 1) mod ROT_STEPS else a_idx s)\<rparr>"
  proof (cases "rot s")
    case True
    then show ?thesis
      by (simp add: simulate_def Let_def r snow_pass_a_idx pile_pass_a_idx)
  next
    case False
    then show ?thesis using same by (simp add: simulate_def Let_def r)
  qed
  finally show ?thesis .
qed

lemma early_still:
  "\<not> r_spawn inp < 0.4 \<Longrightarrow>
     early inp s = (if (tick s + 1) mod MELT_RATE = 0 then melt (s\<lparr>tick := tick s + 1\<rparr>)
                   else s\<lparr>tick := tick s + 1\<rparr>)"
  by (simp add: early_def Let_def)

lemma snow_view_early_still:
  assumes "\<not> r_spawn inp < 0.4"
  shows "sn_act (early inp s) = sn_act s" "pl_act (early inp s) = pl_act s"
    "sn_x (early inp s) = sn_x s" "sn_y (early inp s) = sn_y s"
    "sn_vx (early inp s) = sn_vx s" "sn_vy (early inp s) = sn_vy s"
  using assms by (simp_all add: early_still melt_def)

lemma lone_early_still: "\<not> r_spawn inp < 0.4 \<Longrightarrow> lone i x y vy (early inp s) = lone i x y vy s"
  by (simp add: lone_def fslot_def snow_view_early_still)

lemma calm_early_still: "\<not> r_spawn inp < 0.4 \<Longrightarrow> calm (early inp s) = calm s"
  by (simp add: calm_def snow_view_early_still)

lemma a_idx_irrelevant:
  "lone i x y vy (s\<lparr>a_idx := k\<rparr>) = lone i x y vy s" "calm (s\<lparr>a_idx := k\<rparr>) = calm s"
  "ground_ok (s\<lparr>a_idx := k\<rparr>) = ground_ok s" "clear_of_logo x (s\<lparr>a_idx := k\<rparr>) = clear_of_logo x s"
  by (simp_all add: lone_def calm_def fslot_def ground_ok_def clear_of_logo_def)

lemma wf_a_idx_if: "wf u \<Longrightarrow> a < ROT_STEPS \<Longrightarrow> wf (u\<lparr>a_idx := (if b then (a + 1) mod ROT_STEPS else a)\<rparr>)"
  by (simp add: wf_def ROT_STEPS_def)


lemma frame_ctl:
  assumes "quiet h inp" "stage s = 1"
  shows "SCREEN_H (run h inp s) = SCREEN_H s" "CX (run h inp s) = CX s"
    "GROUND_CHUNKS (run h inp s) = GROUND_CHUNKS s" "stage (run h inp s) = 1"
    "tick (run h inp s) = tick s + 1" "rot (run h inp s) = rot s"
  using ctlD [OF ctl_early [of inp s]] assms(2)
  by (simp_all add: run_passes [OF assms] ctlD [OF ctl_pile_pass] ctlD [OF ctl_snow_pass])

lemma frame_from_early:
  assumes a: "wf s" "stage s = 1" "ground_ok s" "clear_of_logo x s" "0 \<le> chunk_of x"
    "chunk_of x < GROUND_CHUNKS s" and q: "quiet h inp"
    and le: "lone i x (fall_y v k) (v + GRAVITY * real k) (early inp s)"
  shows "real_of_int (ground (early inp s) ! nat (chunk_of x)) \<le> fall_y v (Suc k) + 4 \<Longrightarrow>
           resting x (run h inp s) \<and>
           ground (run h inp s) =
             (ground (early inp s))[nat (chunk_of x) := ground (early inp s) ! nat (chunk_of x) - 4]"
    and "fall_y v (Suc k) + 4 < real_of_int (ground (early inp s) ! nat (chunk_of x)) \<Longrightarrow>
           falling i x v (Suc k) (run h inp s) \<and> ground (run h inp s) = ground (early inp s)"
proof -
  define t where "t = early inp s"
  define sa where "sa = SIN_LUT ! a_idx s"
  define ca where "ca = COS_LUT ! a_idx s"
  define A where "A = (if rot s then (a_idx s + 1) mod ROT_STEPS else a_idx s)"
  note c = ctlD [OF ctl_early [of inp s]]
  have wt: "wf t" unfolding t_def by (rule wf_early [OF a(1)])
  have gt: "ground_ok t" unfolding t_def by (rule ground_ok_early [OF a(1) a(3)])
  have lt: "lone i x (fall_y v k) (v + GRAVITY * real k) t"
    unfolding t_def by (rule le)
  have ct: "clear_of_logo x t" "chunk_of x < GROUND_CHUNKS t" "SCREEN_H t = SCREEN_H s"
    using a(4,6) c by (simp_all add: t_def clear_of_logo_def)
  have un: "sa\<^sup>2 + ca\<^sup>2 = 1" unfolding sa_def ca_def
    by (rule lut_unit) (use a(1) in \<open>simp add: wf_def\<close>)
  note lp = lone_passes [OF wt lt un ct(1) a(5) ct(2)]
  have r: "run h inp s = (snow_step sa ca i t)\<lparr>a_idx := A\<rparr>"
    using run_passes [OF q a(2)] lp(1) by (simp add: t_def sa_def ca_def A_def)
  have y: "fall_y v k + (v + GRAVITY * real k + GRAVITY) = fall_y v (Suc k)"
    by (simp add: fall_y_Suc)
  have vy: "v + GRAVITY * real k + GRAVITY = v + GRAVITY * real (Suc k)"
    by (simp add: algebra_simps)
  have base: "wf (run h inp s)" "stage (run h inp s) = 1" "ground_ok (run h inp s)"
    "clear_of_logo x (run h inp s)" "chunk_of x < GROUND_CHUNKS (run h inp s)"
    using wf_run [OF a(1)] ground_ok_run [OF a(1) a(3)] frame_ctl [OF q a(2)] a(4,6)
    by (simp_all add: clear_of_logo_def)
  have cl: "nat (chunk_of x) < length (ground t)"
    using wt ct(2) a(5) by (simp add: wf_def)
  have gH: "ground t ! nat (chunk_of x) \<le> SCREEN_H t"
    using gt cl by (simp add: ground_ok_nth)
  show "resting x (run h inp s) \<and>
           ground (run h inp s) =
             (ground (early inp s))[nat (chunk_of x) := ground (early inp s) ! nat (chunk_of x) - 4]"
    if "real_of_int (ground (early inp s) ! nat (chunk_of x)) \<le> fall_y v (Suc k) + 4"
  proof -
    have "real_of_int (ground t ! nat (chunk_of x)) \<le> fall_y v k + (v + GRAVITY * real k + GRAVITY) + 4"
      using that by (simp add: y t_def)
    from lp(2) [OF this] show ?thesis
      using base a(5) by (simp add: resting_def r a_idx_irrelevant t_def)
  qed
  show "falling i x v (Suc k) (run h inp s) \<and> ground (run h inp s) = ground (early inp s)"
    if "fall_y v (Suc k) + 4 < real_of_int (ground (early inp s) ! nat (chunk_of x))"
  proof -
    have 1: "\<not> real_of_int (ground t ! nat (chunk_of x)) \<le> fall_y v k + (v + GRAVITY * real k + GRAVITY) + 4"
      using that by (simp add: y t_def)
    have "fall_y v (Suc k) < real_of_int (SCREEN_H t)"
      using that gH by (simp add: t_def)
    then have 2: "\<not> real_of_int (SCREEN_H t) \<le> fall_y v k + (v + GRAVITY * real k + GRAVITY)"
      by (simp add: y)
    from lp(4) [OF 1 2]
    have "lone i x (fall_y v (Suc k)) (v + GRAVITY * real (Suc k)) (snow_step sa ca i t) \<and>
          ground (snow_step sa ca i t) = ground t"
      using y by (simp only: vy)
    then show ?thesis
      using base a(5) by (simp add: falling_def r a_idx_irrelevant t_def)
  qed
qed

lemma falling_frame:
  assumes f: "falling i x v k s" and st: "still h inp"
  shows "real_of_int (ground (early inp s) ! nat (chunk_of x)) \<le> fall_y v (Suc k) + 4 \<Longrightarrow>
           resting x (run h inp s) \<and>
           ground (run h inp s) =
             (ground (early inp s))[nat (chunk_of x) := ground (early inp s) ! nat (chunk_of x) - 4]"
    and "fall_y v (Suc k) + 4 < real_of_int (ground (early inp s) ! nat (chunk_of x)) \<Longrightarrow>
           falling i x v (Suc k) (run h inp s) \<and> ground (run h inp s) = ground (early inp s)"
proof -
  have a: "wf s" "stage s = 1" "ground_ok s" "clear_of_logo x s" "0 \<le> chunk_of x"
    "chunk_of x < GROUND_CHUNKS s" "lone i x (fall_y v k) (v + GRAVITY * real k) s"
    using f by (simp_all add: falling_def)
  have q: "quiet h inp" "\<not> r_spawn inp < 0.4" using st by (simp_all add: still_def)
  have le: "lone i x (fall_y v k) (v + GRAVITY * real k) (early inp s)"
    using a(7) q(2) by (simp add: lone_early_still)
  note r = frame_from_early [OF a(1-6) q(1) le]
  show "resting x (run h inp s) \<and>
           ground (run h inp s) =
             (ground (early inp s))[nat (chunk_of x) := ground (early inp s) ! nat (chunk_of x) - 4]"
    if "real_of_int (ground (early inp s) ! nat (chunk_of x)) \<le> fall_y v (Suc k) + 4"
    using r(1) [OF that] .
  show "falling i x v (Suc k) (run h inp s) \<and> ground (run h inp s) = ground (early inp s)"
    if "fall_y v (Suc k) + 4 < real_of_int (ground (early inp s) ! nat (chunk_of x))"
    using r(2) [OF that] .
qed

lemma resting_frame:
  assumes f: "resting x s" and st: "still h inp"
  shows "resting x (run h inp s) \<and> ground (run h inp s) = ground (early inp s)"
proof -
  have a: "wf s" "stage s = 1" "ground_ok s" "clear_of_logo x s" "0 \<le> chunk_of x"
    "chunk_of x < GROUND_CHUNKS s" "calm s"
    using f by (simp_all add: resting_def)
  have q: "quiet h inp" "\<not> r_spawn inp < 0.4" using st by (simp_all add: still_def)
  define sa where "sa = SIN_LUT ! a_idx s"
  define ca where "ca = COS_LUT ! a_idx s"
  have ce: "calm (early inp s)" using a(7) q(2) by (simp add: calm_early_still)
  have p: "pile_pass sa ca (snow_pass sa ca (early inp s)) = early inp s"
    using ce by (simp add: calm_def snow_pass_none pile_pass_empty)
  have r: "run h inp s = (early inp s)\<lparr>a_idx := (if rot s then (a_idx s + 1) mod ROT_STEPS else a_idx s)\<rparr>"
    using run_passes [OF q(1) a(2)] p by (simp add: sa_def ca_def)
  have base: "wf (run h inp s)" "stage (run h inp s) = 1" "ground_ok (run h inp s)"
    "clear_of_logo x (run h inp s)" "chunk_of x < GROUND_CHUNKS (run h inp s)"
    using wf_run [OF a(1)] ground_ok_run [OF a(1) a(3)] frame_ctl [OF q(1) a(2)] a(4,6)
    by (simp_all add: clear_of_logo_def)
  show ?thesis using base a(5) ce by (simp add: resting_def r a_idx_irrelevant)
qed

subsection \<open>Scenario A\<close>








lemma still_demo: "still demo_host demo_quiet"
  by (simp add: still_def quiet_demo) (simp add: demo_quiet_def)



subsection \<open>Column 0 under a steady fall of flakes\<close>

lemma chunk_of_0: "chunk_of 0 = 0"
  by (simp add: chunk_of_def py_int_def)

lemma ground_early: "ground (early inp s) =
   ground (if (tick s + 1) mod MELT_RATE = 0 then melt (s\<lparr>tick := tick s + 1\<rparr>) else s\<lparr>tick := tick s + 1\<rparr>)"
  by (simp add: early_def Let_def spawn_def split: option.splits)

lemma div_step:
  "Suc t mod MELT_RATE = 0 \<Longrightarrow> Suc t div MELT_RATE = t div MELT_RATE + 1"
  "Suc t mod MELT_RATE \<noteq> 0 \<Longrightarrow> Suc t div MELT_RATE = t div MELT_RATE"
  by (simp_all add: div_Suc)

lemma length_ground_early: "length (ground (early inp s)) = length (ground s)"
  by (simp add: ground_early melt_def)

lemma level_early:
  assumes "wf s" "0 < length (ground s)"
  shows "ground (early inp s) ! 0 - int ((tick s + 1) div MELT_RATE) \<le> level s"
proof (cases "(tick s + 1) mod MELT_RATE = 0")
  case True
  have w: "wf (s\<lparr>tick := tick s + 1\<rparr>)" using assms(1) by simp
  have "ground (melt (s\<lparr>tick := tick s + 1\<rparr>)) ! 0 \<le> ground s ! 0 + 1"
    using melt_nth [OF w, of 0] assms(2) by simp
  then show ?thesis using True by (simp add: ground_early div_step level_def)
next
  case False
  then show ?thesis by (simp add: ground_early div_step level_def)
qed

lemma resting_level:
  assumes "resting 0 s" "still h inp"
  shows "resting 0 (run h inp s) \<and> level (run h inp s) \<le> level s \<and>
         tick (run h inp s) = tick s + 1 \<and> SCREEN_H (run h inp s) = SCREEN_H s"
proof -
  have a: "wf s" "stage s = 1" "chunk_of 0 < GROUND_CHUNKS s"
    using assms(1) by (simp_all add: resting_def)
  have q: "quiet h inp" using assms(2) by (simp add: still_def)
  have l: "0 < length (ground s)" using a(1,3) by (simp add: wf_def chunk_of_0)
  note r = resting_frame [OF assms]
  note c = frame_ctl [OF q a(2)]
  have "level (run h inp s) = ground (early inp s) ! 0 - int ((tick s + 1) div MELT_RATE)"
    using r c by (simp add: level_def)
  then show ?thesis using r c level_early [OF a(1) l, of inp] by simp
qed

lemma falling_level:
  assumes "falling 0 0 v k s" "still h inp"
  shows "(falling 0 0 v (Suc k) (run h inp s) \<and> level (run h inp s) \<le> level s \<and>
            fall_y v (Suc k) + 4 < real_of_int (SCREEN_H s)) \<or>
         (resting 0 (run h inp s) \<and> level (run h inp s) \<le> level s - 4)"
    and "tick (run h inp s) = tick s + 1" and "SCREEN_H (run h inp s) = SCREEN_H s"
proof -
  have a: "wf s" "stage s = 1" "chunk_of 0 < GROUND_CHUNKS s" "ground_ok s"
    using assms(1) by (simp_all add: falling_def)
  have q: "quiet h inp" using assms(2) by (simp add: still_def)
  have l: "0 < length (ground s)" using a(1,3) by (simp add: wf_def chunk_of_0)
  note c = frame_ctl [OF q a(2)]
  show "tick (run h inp s) = tick s + 1" "SCREEN_H (run h inp s) = SCREEN_H s" using c by simp_all
  have le: "0 < length (ground (early inp s))" using l by (simp only: length_ground_early)
  have gH: "ground (early inp s) ! 0 \<le> SCREEN_H s"
    using ground_ok_early [OF a(1) a(4), of inp] le ctlD [OF ctl_early [of inp s]]
    by (simp add: ground_ok_nth)
  show "(falling 0 0 v (Suc k) (run h inp s) \<and> level (run h inp s) \<le> level s \<and>
            fall_y v (Suc k) + 4 < real_of_int (SCREEN_H s)) \<or>
         (resting 0 (run h inp s) \<and> level (run h inp s) \<le> level s - 4)"
  proof (cases "real_of_int (ground (early inp s) ! 0) \<le> fall_y v (Suc k) + 4")
    case True
    then have r: "resting 0 (run h inp s) \<and>
        ground (run h inp s) = (ground (early inp s))[0 := ground (early inp s) ! 0 - 4]"
      using falling_frame(1) [OF assms] by (simp add: chunk_of_0)
    have "level (run h inp s) = ground (early inp s) ! 0 - 4 - int ((tick s + 1) div MELT_RATE)"
      using r c le by (simp add: level_def)
    then show ?thesis using r level_early [OF a(1) l, of inp] by simp
  next
    case False
    then have f: "falling 0 0 v (Suc k) (run h inp s) \<and> ground (run h inp s) = ground (early inp s)"
      using falling_frame(2) [OF assms] by (simp add: chunk_of_0)
    have "level (run h inp s) = ground (early inp s) ! 0 - int ((tick s + 1) div MELT_RATE)"
      using f c by (simp add: level_def)
    moreover have "fall_y v (Suc k) + 4 < real_of_int (SCREEN_H s)"
      using False gH by linarith
    ultimately show ?thesis using f level_early [OF a(1) l, of inp] by simp
  qed
qed

lemma lone_early_spawn:
  assumes w: "wf s" and c: "calm s" and sp: "r_spawn inp < 0.4"
      and x: "real_of_int (r_x inp) = x" "r_vx inp = 0" "r_vy inp = v"
  shows "lone 0 x (fall_y v 0) (v + GRAVITY * real 0) (early inp s)"
proof -
  define t where "t = (if (tick s + 1) mod MELT_RATE = 0 then melt (s\<lparr>tick := tick s + 1\<rparr>)
                       else s\<lparr>tick := tick s + 1\<rparr>)"
  have e: "early inp s = spawn inp t" using sp by (simp add: early_def Let_def t_def)
  have k: "sn_act t = sn_act s" "pl_act t = pl_act s" "sn_x t = sn_x s" "sn_y t = sn_y s"
    "sn_vx t = sn_vx s" "sn_vy t = sn_vy s"
    by (simp_all add: t_def melt_def)
  have z: "(0::nat) < MAX_SNOW" by (simp add: MAX_SNOW_def)
  have n: "\<not> sn_act t ! 0" using c z by (simp add: calm_def k)
  have f: "first_free (sn_act s) MAX_SNOW = Some 0" using first_free_0 [OF z n] by (simp add: k)
  have len: "0 < length (sn_act s)" "0 < length (sn_x s)" "0 < length (sn_y s)"
    "0 < length (sn_vx s)" "0 < length (sn_vy s)"
    using w z by (simp_all add: wf_def)
  show ?thesis unfolding e
    using c len z x by (simp add: spawn_def f lone_def fslot_def k calm_def fall_y_0)
qed

lemma spawn_level:
  assumes r: "resting 0 s" and q: "quiet h inp" and sp: "r_spawn inp < 0.4"
      and x: "r_x inp = 0" "r_vx inp = 0" "r_vy inp = v"
  shows "(falling 0 0 v 1 (run h inp s) \<and> level (run h inp s) \<le> level s \<and>
            fall_y v 1 + 4 < real_of_int (SCREEN_H s)) \<or>
         (resting 0 (run h inp s) \<and> level (run h inp s) \<le> level s - 4)"
    and "tick (run h inp s) = tick s + 1" and "SCREEN_H (run h inp s) = SCREEN_H s"
proof -
  have a: "wf s" "stage s = 1" "ground_ok s" "clear_of_logo 0 s" "0 \<le> chunk_of 0"
    "chunk_of 0 < GROUND_CHUNKS s" "calm s"
    using r by (simp_all add: resting_def)
  have l: "0 < length (ground s)" using a(1,6) by (simp add: wf_def chunk_of_0)
  note c = frame_ctl [OF q a(2)]
  show "tick (run h inp s) = tick s + 1" "SCREEN_H (run h inp s) = SCREEN_H s" using c by simp_all
  have lo: "lone 0 0 (fall_y v 0) (v + GRAVITY * real 0) (early inp s)"
    by (rule lone_early_spawn [OF a(1) a(7) sp]) (simp_all add: x)
  note fr = frame_from_early [OF a(1-6) q lo]
  have le: "0 < length (ground (early inp s))" using l by (simp only: length_ground_early)
  have gH: "ground (early inp s) ! 0 \<le> SCREEN_H s"
    using ground_ok_early [OF a(1) a(3), of inp] le ctlD [OF ctl_early [of inp s]]
    by (simp add: ground_ok_nth)
  show "(falling 0 0 v 1 (run h inp s) \<and> level (run h inp s) \<le> level s \<and>
            fall_y v 1 + 4 < real_of_int (SCREEN_H s)) \<or>
         (resting 0 (run h inp s) \<and> level (run h inp s) \<le> level s - 4)"
  proof (cases "real_of_int (ground (early inp s) ! 0) \<le> fall_y v (Suc 0) + 4")
    case True
    then have r: "resting 0 (run h inp s) \<and>
        ground (run h inp s) = (ground (early inp s))[0 := ground (early inp s) ! 0 - 4]"
      using fr(1) by (simp add: chunk_of_0)
    have "level (run h inp s) = ground (early inp s) ! 0 - 4 - int ((tick s + 1) div MELT_RATE)"
      using r c le by (simp add: level_def)
    then show ?thesis using r level_early [OF a(1) l, of inp] by simp
  next
    case False
    then have f: "falling 0 0 v (Suc 0) (run h inp s) \<and> ground (run h inp s) = ground (early inp s)"
      using fr(2) by (simp add: chunk_of_0)
    have "level (run h inp s) = ground (early inp s) ! 0 - int ((tick s + 1) div MELT_RATE)"
      using f c by (simp add: level_def)
    moreover have "fall_y v (Suc 0) + 4 < real_of_int (SCREEN_H s)"
      using False gH by linarith
    ultimately show ?thesis using f level_early [OF a(1) l, of inp] by simp
  qed
qed

lemma frames_append: "frames h (xs @ ys) s = frames h ys (frames h xs s)"
  by (induction xs arbitrary: s) simp_all

lemma fall_or_land:
  assumes "SCREEN_H s = H"
      and "(falling 0 0 v k s \<and> level s \<le> L \<and> fall_y v k + 4 < real_of_int H) \<or>
           (resting 0 s \<and> level s \<le> L - 4)"
      and "still h inp"
  shows "((falling 0 0 v (Suc k) (run h inp s) \<and> level (run h inp s) \<le> L \<and>
            fall_y v (Suc k) + 4 < real_of_int H) \<or>
          (resting 0 (run h inp s) \<and> level (run h inp s) \<le> L - 4)) \<and>
         tick (run h inp s) = tick s + 1 \<and> SCREEN_H (run h inp s) = H"
  using assms(2)
proof
  assume f: "falling 0 0 v k s \<and> level s \<le> L \<and> fall_y v k + 4 < real_of_int H"
  then have ff: "falling 0 0 v k s" by simp
  show ?thesis
    using falling_level(1) [OF ff assms(3)] falling_level(2) [OF ff assms(3)]
      falling_level(3) [OF ff assms(3)] f assms(1)
    by auto
next
  assume r: "resting 0 s \<and> level s \<le> L - 4"
  then have rr: "resting 0 s" by simp
  show ?thesis using resting_level [OF rr assms(3)] r assms(1) by auto
qed

lemma fall_or_land_frames:
  "SCREEN_H s = H \<Longrightarrow>
   (falling 0 0 v k s \<and> level s \<le> L \<and> fall_y v k + 4 < real_of_int H) \<or>
           (resting 0 s \<and> level s \<le> L - 4) \<Longrightarrow> still h inp \<Longrightarrow>
   ((falling 0 0 v (k + n) (frames h (replicate n inp) s) \<and> level (frames h (replicate n inp) s) \<le> L \<and>
       fall_y v (k + n) + 4 < real_of_int H) \<or>
    (resting 0 (frames h (replicate n inp) s) \<and> level (frames h (replicate n inp) s) \<le> L - 4)) \<and>
   tick (frames h (replicate n inp) s) = tick s + n \<and>
   SCREEN_H (frames h (replicate n inp) s) = H"
proof (induction n arbitrary: s k)
  case 0
  then show ?case by simp
next
  case (Suc n)
  note st = fall_or_land [OF Suc.prems(1) Suc.prems(2) Suc.prems(3)]
  have "((falling 0 0 v (Suc k + n) (frames h (replicate n inp) (run h inp s)) \<and>
          level (frames h (replicate n inp) (run h inp s)) \<le> L \<and>
          fall_y v (Suc k + n) + 4 < real_of_int H) \<or>
         (resting 0 (frames h (replicate n inp) (run h inp s)) \<and>
          level (frames h (replicate n inp) (run h inp s)) \<le> L - 4)) \<and>
        tick (frames h (replicate n inp) (run h inp s)) = tick (run h inp s) + n \<and>
        SCREEN_H (frames h (replicate n inp) (run h inp s)) = H"
    by (rule Suc.IH) (use st Suc.prems(3) in simp_all)
  then show ?case using st by simp
qed

lemma quiet_demo_drop: "quiet demo_host demo_drop"
  by (simp add: quiet_def demo_host_def demo_drop_def BUTTON_G_def BUTTON_R_def)

lemma fall_y_61: "fall_y (3 / 2) 61 + 4 = 12089 / 50"
  by (simp add: fall_y_closed GRAVITY_def)

lemma pile_up_cycle_level:
  assumes "resting 0 s" "SCREEN_H s = 240"
  shows "resting 0 (frames demo_host pile_up_cycle s) \<and>
         level (frames demo_host pile_up_cycle s) \<le> level s - 4 \<and>
         tick (frames demo_host pile_up_cycle s) = tick s + 61 \<and>
         SCREEN_H (frames demo_host pile_up_cycle s) = 240"
proof -
  define s1 where "s1 = run demo_host demo_drop s"
  have sp: "r_spawn demo_drop < 0.4" "r_x demo_drop = 0" "r_vx demo_drop = 0" "r_vy demo_drop = 3 / 2"
    by (simp_all add: demo_drop_def)
  note sl = spawn_level [OF assms(1) quiet_demo_drop sp]
  have d1: "(falling 0 0 (3 / 2) 1 s1 \<and> level s1 \<le> level s \<and> fall_y (3 / 2) 1 + 4 < real_of_int 240) \<or>
            (resting 0 s1 \<and> level s1 \<le> level s - 4)"
    using sl(1) assms(2) by (simp add: s1_def)
  have h1: "SCREEN_H s1 = 240" "tick s1 = tick s + 1" using sl(2,3) assms(2) by (simp_all add: s1_def)
  note fr = fall_or_land_frames [OF h1(1) d1 still_demo, of 60]
  have no: "\<not> fall_y (3 / 2) (1 + 60) + 4 < real_of_int 240"
    using fall_y_61 by simp
  have e: "frames demo_host pile_up_cycle s = frames demo_host (replicate 60 demo_quiet) s1"
    by (simp add: pile_up_cycle_def s1_def)
  show ?thesis unfolding e using fr no h1 by auto
qed

lemma pile_up_Suc: "pile_up (Suc n) = pile_up_cycle @ pile_up n"
  by (simp add: pile_up_def)

lemma pile_up_level:
  "resting 0 s \<Longrightarrow> SCREEN_H s = 240 \<Longrightarrow>
     resting 0 (frames demo_host (pile_up n) s) \<and>
     level (frames demo_host (pile_up n) s) \<le> level s - 4 * int n \<and>
     tick (frames demo_host (pile_up n) s) = tick s + 61 * n \<and>
     SCREEN_H (frames demo_host (pile_up n) s) = 240"
proof (induction n arbitrary: s)
  case 0
  then show ?case by (simp add: pile_up_def)
next
  case (Suc n)
  note c = pile_up_cycle_level [OF Suc.prems]
  have "resting 0 (frames demo_host (pile_up n) (frames demo_host pile_up_cycle s)) \<and>
     level (frames demo_host (pile_up n) (frames demo_host pile_up_cycle s))
       \<le> level (frames demo_host pile_up_cycle s) - 4 * int n \<and>
     tick (frames demo_host (pile_up n) (frames demo_host pile_up_cycle s))
       = tick (frames demo_host pile_up_cycle s) + 61 * n \<and>
     SCREEN_H (frames demo_host (pile_up n) (frames demo_host pile_up_cycle s)) = 240"
    by (rule Suc.IH) (use c in simp_all)
  then show ?case using c by (simp add: pile_up_Suc frames_append)
qed

lemma run_stage0:
  assumes "stage s = 0" "5000 < ticks_diff (now inp) (start_time s)" "quiet h inp"
  shows "run h inp s = run h inp (s\<lparr>stage := 1\<rparr>)"
  using assms by (simp add: run_def quiet_def Let_def)

lemma resting_fresh1: "resting 0 (fresh\<lparr>stage := 1\<rparr>)"
proof -
  have w: "wf (fresh\<lparr>stage := 1\<rparr>)" by (simp add: wf_fresh)
  have g: "ground_ok (fresh\<lparr>stage := 1\<rparr>)"
    using ground_ok_start [of demo_host 0 boot] by (simp add: ground_ok_def fresh_def)
  have c: "clear_of_logo 0 (fresh\<lparr>stage := 1\<rparr>)"
    by (simp add: clear_of_logo_def fresh_eq L_LEFT_def L_TOP_def)
  have k: "chunk_of 0 < GROUND_CHUNKS (fresh\<lparr>stage := 1\<rparr>)" by (simp add: chunk_of_0 fresh_eq)
  have m: "calm (fresh\<lparr>stage := 1\<rparr>)" by (simp add: calm_def fresh_eq)
  show ?thesis using w g c k m by (simp add: resting_def chunk_of_0)
qed

lemma pile_up_from_fresh:
  "0 < n \<Longrightarrow> frames demo_host (pile_up n) fresh = frames demo_host (pile_up n) (fresh\<lparr>stage := 1\<rparr>)"
proof -
  assume "0 < n"
  then obtain m where n: "n = Suc m" by (cases n) auto
  have d: "pile_up n = demo_drop # (replicate 60 demo_quiet @ pile_up m)"
    by (simp add: n pile_up_Suc pile_up_cycle_def)
  have r: "run demo_host demo_drop fresh = run demo_host demo_drop (fresh\<lparr>stage := 1\<rparr>)"
    by (rule run_stage0 [OF _ _ quiet_demo_drop])
       (simp_all add: fresh_eq demo_drop_def ticks_diff_def)
  show ?thesis unfolding d by (simp add: r)
qed

text \<open>
  Claim C1, as stated: in every reachable state every column height lies in
  \<open>[0, screen height]\<close>. The lower bound fails. On a 320 by 240 screen, spawn a flake at
  \<open>x = 0\<close> with falling speed \<open>3/2\<close>, let 60 frames pass, and repeat: every flake lands
  on column 0 and lowers it by 4, the melt gives back 1 every 60 frames, and nothing
  in lines 212 to 215 looks at how high the column already is. After 81 rounds the top
  of column 0 is above the top of the screen.
\<close>

theorem ground_below_zero:
  "reachable demo_host (frames demo_host (pile_up 81) fresh) \<and>
   0 < length (ground (frames demo_host (pile_up 81) fresh)) \<and>
   ground (frames demo_host (pile_up 81) fresh) ! 0 < 0"
proof -
  define t where "t = frames demo_host (pile_up 81) fresh"
  have e: "t = frames demo_host (pile_up 81) (fresh\<lparr>stage := 1\<rparr>)"
    unfolding t_def by (rule pile_up_from_fresh) simp
  have h: "SCREEN_H (fresh\<lparr>stage := 1\<rparr>) = 240" "level (fresh\<lparr>stage := 1\<rparr>) = 240"
    "tick (fresh\<lparr>stage := 1\<rparr>) = 0"
    by (simp_all add: fresh_eq level_def)
  note p = pile_up_level [OF resting_fresh1 h(1), of 81]
  have l: "level t \<le> - 84" "tick t = 4941" "resting 0 t" using p h by (simp_all add: e)
  have "ground t ! 0 = level t + int (tick t div MELT_RATE)" by (simp add: level_def)
  then have g: "ground t ! 0 < 0" using l by (simp add: MELT_RATE_def)
  have r: "reachable demo_host t" unfolding t_def by (rule reachable_frames [OF reachable_fresh])
  have n: "0 < length (ground t)" using l(3) by (simp add: resting_def wf_def chunk_of_0)
  show ?thesis using r n g by (simp add: t_def)
qed

text \<open>
  Claim C1, amended: in every reachable state every column height is at most the screen
  height. The melt raises a height by 1 only where it is strictly below the screen
  height, and the ground test lowers a height by 4 only when the flake's bottom has
  reached it and changes no height otherwise. Nothing bounds the heights from below.
\<close>

theorem ground_upper_bound:
  "(reachable h s \<longrightarrow> (\<forall>c<length (ground s). ground s ! c \<le> SCREEN_H s)) \<and>
   (wf s \<and> c < length (ground s) \<longrightarrow>
      ground (melt s) ! c = (if ground s ! c < SCREEN_H s then ground s ! c + 1 else ground s ! c)) \<and>
   (snd (ground_test k yb s) \<longrightarrow>
      real_of_int (ground s ! nat k) \<le> yb \<and>
      ground (fst (ground_test k yb s)) = (ground s)[nat k := ground s ! nat k - 4]) \<and>
   (\<not> snd (ground_test k yb s) \<longrightarrow> ground (fst (ground_test k yb s)) = ground s)"
proof (intro conjI impI)
  assume "reachable h s"
  then show "\<forall>c<length (ground s). ground s ! c \<le> SCREEN_H s"
    using ground_ok_reachable [of h s] by (simp add: ground_ok_nth)
next
  assume "wf s \<and> c < length (ground s)"
  then show "ground (melt s) ! c = (if ground s ! c < SCREEN_H s then ground s ! c + 1 else ground s ! c)"
    using melt_nth [of s c] by simp
next
  assume a: "snd (ground_test k yb s)"
  show "real_of_int (ground s ! nat k) \<le> yb"
    using a by (auto simp: ground_test_def split: if_splits)
  show "ground (fst (ground_test k yb s)) = (ground s)[nat k := ground s ! nat k - 4]"
    using a by (auto simp: ground_test_def split: if_splits)
next
  assume "\<not> snd (ground_test k yb s)"
  then show "ground (fst (ground_test k yb s)) = ground s"
    by (auto simp: ground_test_def split: if_splits)
qed

theorem ground_upper_bound_witness:
  "(25::nat) < length (ground fresh) \<and> ground fresh ! 25 \<le> SCREEN_H fresh \<and> wf fresh \<and>
   ground (melt fresh) ! 25 = 240 \<and>
   snd (ground_test 25 240 fresh) \<and> ground (fst (ground_test 25 240 fresh)) ! 25 = 236 \<and>
   \<not> snd (ground_test 25 200 fresh) \<and> ground (fst (ground_test 25 200 fresh)) ! 25 = 240"
proof -
  have f: "length (ground fresh) = 81" "ground fresh ! 25 = 240" "SCREEN_H fresh = 240"
    "GROUND_CHUNKS fresh = 81"
    by (simp_all add: fresh_eq)
  have t: "snd (ground_test 25 240 fresh)" "\<not> snd (ground_test 25 200 fresh)"
    by (simp_all add: ground_test_def f)
  show ?thesis
    using ground_upper_bound [of demo_host fresh 25 25 240]
      ground_upper_bound [of demo_host fresh 25 25 200] reachable_fresh wf_fresh f t
    by simp
qed

subsection \<open>Sliding along the top and bottom edges\<close>

lemma pslot_fall_off:
  "p < length (pl_act t) \<Longrightarrow>
     pslot (fall_off sa ca p e v t) p = (False, pl_rx t ! p, pl_ry t ! p, pl_sv t ! p, pl_edge t ! p)"
  by (simp add: fall_off_def Let_def pslot_def split: prod.splits option.splits)

lemma slide_horizontal:
  assumes "pl_edge s ! p = 0 \<or> pl_edge s ! p = 1"
  shows "slide gx gy p s =
      (if (pl_edge s ! p = 0 \<and> gy < 0) \<or> (pl_edge s ! p = 1 \<and> 0 < gy) then (s, pl_sv s ! p, True)
       else (s\<lparr>pl_rx := (pl_rx s)[p := pl_rx s ! p + (pl_sv s ! p + gx) * FRICTION]\<rparr>,
             (pl_sv s ! p + gx) * FRICTION,
             pl_rx s ! p + (pl_sv s ! p + gx) * FRICTION < L_LEFT \<or>
             L_RIGHT < pl_rx s ! p + (pl_sv s ! p + gx) * FRICTION))"
proof (cases "pl_edge s ! p = 0")
  case True
  then show ?thesis by (simp add: slide_def Let_def)
next
  case False
  then have "pl_edge s ! p = 1" using assms by simp
  then show ?thesis by (simp add: slide_def Let_def)
qed

lemma pslot_pile_step_horizontal:
  assumes "wf s" "p < MAX_PILE" "pl_act s ! p" "pl_edge s ! p = 0 \<or> pl_edge s ! p = 1"
  shows "pslot (pile_step sa ca gx gy p s) p =
           (if (pl_edge s ! p = 0 \<and> gy < 0) \<or> (pl_edge s ! p = 1 \<and> 0 < gy)
            then (False, pl_rx s ! p, pl_ry s ! p, pl_sv s ! p, pl_edge s ! p)
            else (L_LEFT \<le> pl_rx s ! p + (pl_sv s ! p + gx) * FRICTION \<and>
                    pl_rx s ! p + (pl_sv s ! p + gx) * FRICTION \<le> L_RIGHT,
                  pl_rx s ! p + (pl_sv s ! p + gx) * FRICTION, pl_ry s ! p,
                  (pl_sv s ! p + gx) * FRICTION, pl_edge s ! p))"
proof -
  define sv where "sv = (pl_sv s ! p + gx) * FRICTION"
  define rx where "rx = pl_rx s ! p + sv"
  define away where "away \<longleftrightarrow> (pl_edge s ! p = 0 \<and> gy < 0) \<or> (pl_edge s ! p = 1 \<and> 0 < gy)"
  have l: "p < length (pl_act s)" "p < length (pl_rx s)" "p < length (pl_ry s)"
    "p < length (pl_sv s)" "p < length (pl_edge s)"
    using assms(1,2) by (simp_all add: wf_def)
  have sl: "slide gx gy p s =
      (if away then (s, pl_sv s ! p, True)
       else (s\<lparr>pl_rx := (pl_rx s)[p := rx]\<rparr>, sv, rx < L_LEFT \<or> L_RIGHT < rx))"
    unfolding away_def rx_def sv_def by (rule slide_horizontal [OF assms(4)])
  have "pslot (pile_step sa ca gx gy p s) p =
           (if away then (False, pl_rx s ! p, pl_ry s ! p, pl_sv s ! p, pl_edge s ! p)
            else (L_LEFT \<le> rx \<and> rx \<le> L_RIGHT, rx, pl_ry s ! p, sv, pl_edge s ! p))"
  proof (cases away)
    case True
    then show ?thesis using assms(3) l by (simp add: pile_step_def sl Let_def pslot_fall_off)
  next
    case False
    show ?thesis
    proof (cases "rx < L_LEFT \<or> L_RIGHT < rx")
      case True
      then show ?thesis using \<open>\<not> away\<close> assms(3) l
        by (auto simp: pile_step_def sl Let_def pslot_fall_off)
    next
      case False
      then show ?thesis using \<open>\<not> away\<close> assms(3) l
        by (simp add: pile_step_def sl Let_def pslot_def)
    qed
  qed
  then show ?thesis unfolding away_def rx_def sv_def .
qed

lemma pslot_pile_pass_horizontal:
  assumes "wf s" "p < MAX_PILE" "pl_act s ! p" "pl_edge s ! p = 0 \<or> pl_edge s ! p = 1"
  shows "pslot (pile_pass sa ca s) p =
           (if (pl_edge s ! p = 0 \<and> ca * GRAVITY * 2 < 0) \<or> (pl_edge s ! p = 1 \<and> 0 < ca * GRAVITY * 2)
            then (False, pl_rx s ! p, pl_ry s ! p, pl_sv s ! p, pl_edge s ! p)
            else (L_LEFT \<le> pl_rx s ! p + (pl_sv s ! p + sa * GRAVITY * 2) * FRICTION \<and>
                    pl_rx s ! p + (pl_sv s ! p + sa * GRAVITY * 2) * FRICTION \<le> L_RIGHT,
                  pl_rx s ! p + (pl_sv s ! p + sa * GRAVITY * 2) * FRICTION, pl_ry s ! p,
                  (pl_sv s ! p + sa * GRAVITY * 2) * FRICTION, pl_edge s ! p))"
proof -
  let ?f = "pile_step sa ca (sa * GRAVITY * 2) (ca * GRAVITY * 2)"
  have sp: "[0..<MAX_PILE] = [0..<p] @ p # [Suc p..<MAX_PILE]"
    using assms(2) upt_add_eq_append [of 0 p "MAX_PILE - p"] by (simp add: upt_conv_Cons)
  define s1 where "s1 = fold ?f [0..<p] s"
  have 1: "wf s1 \<and> pslot s1 p = pslot s p" unfolding s1_def
    by (rule fold_keeps [where I = wf and g = "\<lambda>t. pslot t p"])
       (use assms(1) in \<open>auto simp: wf_pile_step pslot_pile_step_other\<close>)
  have a1: "pl_act s1 ! p" "pl_edge s1 ! p = pl_edge s ! p" "pl_rx s1 ! p = pl_rx s ! p"
     "pl_ry s1 ! p = pl_ry s ! p" "pl_sv s1 ! p = pl_sv s ! p"
    using 1 assms(3) by (simp_all add: pslot_def)
  have e1: "pl_edge s1 ! p = 0 \<or> pl_edge s1 ! p = 1" using assms(4) a1(2) by simp
  note 2 = pslot_pile_step_horizontal [OF conjunct1 [OF 1] assms(2) a1(1) e1,
      of sa ca "sa * GRAVITY * 2" "ca * GRAVITY * 2"]
  have 3: "True \<and> pslot (fold ?f [Suc p..<MAX_PILE] (?f p s1)) p = pslot (?f p s1) p"
    by (rule fold_keeps [where I = "\<lambda>_. True" and g = "\<lambda>t. pslot t p"])
       (auto simp: pslot_pile_step_other)
  have "pslot (pile_pass sa ca s) p = pslot (?f p s1) p"
    unfolding pile_pass_def Let_def sp s1_def using 3 by (simp add: s1_def)
  then show ?thesis using 2 by (simp only: a1)
qed

lemma pslot_simulate_horizontal:
  assumes "wf s" "p < MAX_PILE" "pl_act s ! p" "pl_edge s ! p = 0 \<or> pl_edge s ! p = 1"
  shows "pslot (simulate inp a sa ca s) p =
           (if (pl_edge s ! p = 0 \<and> ca * GRAVITY * 2 < 0) \<or> (pl_edge s ! p = 1 \<and> 0 < ca * GRAVITY * 2)
            then (False, pl_rx s ! p, pl_ry s ! p, pl_sv s ! p, pl_edge s ! p)
            else (L_LEFT \<le> pl_rx s ! p + (pl_sv s ! p + sa * GRAVITY * 2) * FRICTION \<and>
                    pl_rx s ! p + (pl_sv s ! p + sa * GRAVITY * 2) * FRICTION \<le> L_RIGHT,
                  pl_rx s ! p + (pl_sv s ! p + sa * GRAVITY * 2) * FRICTION, pl_ry s ! p,
                  (pl_sv s ! p + sa * GRAVITY * 2) * FRICTION, pl_edge s ! p))"
proof -
  define s4 where "s4 = (if rot (early inp s) then (early inp s)\<lparr>a_idx := (a + 1) mod ROT_STEPS\<rparr>
                         else early inp s)"
  define t where "t = snow_pass sa ca s4"
  have w4: "wf s4" unfolding s4_def using wf_early [OF assms(1), of inp] by (simp add: wf_a_idx)
  have p4: "pslot s4 p = pslot s p"
    unfolding s4_def using pslot_early [of inp s p] by (simp add: pslot_def)
  have a4: "pl_act s4 ! p" using p4 assms(3) by (simp add: pslot_def)
  have pt: "pslot t p = pslot s p" unfolding t_def using pslot_snow_pass [OF a4] p4 by simp
  have wt: "wf t" unfolding t_def by (rule wf_snow_pass [OF w4])
  have f: "pl_act t ! p" "pl_edge t ! p = pl_edge s ! p" "pl_rx t ! p = pl_rx s ! p"
     "pl_ry t ! p = pl_ry s ! p" "pl_sv t ! p = pl_sv s ! p"
    using pt assms(3) by (simp_all add: pslot_def)
  have e: "pl_edge t ! p = 0 \<or> pl_edge t ! p = 1" using assms(4) f(2) by simp
  have sim: "simulate inp a sa ca s = pile_pass sa ca t"
    by (simp add: simulate_def Let_def t_def s4_def)
  show ?thesis unfolding sim
    using pslot_pile_pass_horizontal [OF wt assms(2) f(1) e, of sa ca] by (simp only: f)
qed

lemma run_simulates:
  assumes "ticking h inp" "stage s = 1"
  shows "run h inp s =
           simulate inp (a_idx s) (SIN_LUT ! a_idx s) (COS_LUT ! a_idx s)
             (if button inp = BUTTON_G then s\<lparr>rot := \<not> rot s\<rparr> else s)"
proof -
  define s1 where "s1 = (if button inp = BUTTON_G then s\<lparr>rot := \<not> rot s\<rparr> else s)"
  have k: "stage s1 = 1" "a_idx s1 = a_idx s" using assms(2) by (simp_all add: s1_def)
  have b: "button inp \<noteq> BUTTON_BACK h" "button inp \<noteq> BUTTON_ESCAPE h" "button inp \<noteq> BUTTON_R"
    using assms(1) by (simp_all add: ticking_def)
  have 1: "(if button inp = BUTTON_G \<and> stage s = 1 then s\<lparr>rot := \<not> rot s\<rparr> else s) = s1"
    using assms(2) by (simp add: s1_def)
  have "run h inp s = simulate inp (a_idx s1) (SIN_LUT ! a_idx s1) (COS_LUT ! a_idx s1) s1"
    unfolding run_def 1 Let_def using b k(1) by simp
  then have "run h inp s = simulate inp (a_idx s) (SIN_LUT ! a_idx s) (COS_LUT ! a_idx s) s1"
    by (simp only: k(2))
  then show ?thesis unfolding s1_def .
qed

lemma pslot_run_horizontal:
  assumes "wf s" "stage s = 1" "ticking h inp" "p < MAX_PILE" "pl_act s ! p"
      and "pl_edge s ! p = 0 \<or> pl_edge s ! p = 1"
  shows "pslot (run h inp s) p =
           (if (pl_edge s ! p = 0 \<and> COS_LUT ! a_idx s * GRAVITY * 2 < 0) \<or>
               (pl_edge s ! p = 1 \<and> 0 < COS_LUT ! a_idx s * GRAVITY * 2)
            then (False, pl_rx s ! p, pl_ry s ! p, pl_sv s ! p, pl_edge s ! p)
            else (L_LEFT \<le> pl_rx s ! p + (pl_sv s ! p + SIN_LUT ! a_idx s * GRAVITY * 2) * FRICTION \<and>
                    pl_rx s ! p + (pl_sv s ! p + SIN_LUT ! a_idx s * GRAVITY * 2) * FRICTION \<le> L_RIGHT,
                  pl_rx s ! p + (pl_sv s ! p + SIN_LUT ! a_idx s * GRAVITY * 2) * FRICTION, pl_ry s ! p,
                  (pl_sv s ! p + SIN_LUT ! a_idx s * GRAVITY * 2) * FRICTION, pl_edge s ! p))"
proof -
  define s1 where "s1 = (if button inp = BUTTON_G then s\<lparr>rot := \<not> rot s\<rparr> else s)"
  have w: "wf s1" using assms(1) by (simp add: s1_def)
  have k: "pl_act s1 = pl_act s" "pl_edge s1 = pl_edge s" "pl_rx s1 = pl_rx s" "pl_ry s1 = pl_ry s"
    "pl_sv s1 = pl_sv s"
    by (simp_all add: s1_def)
  have a: "pl_act s1 ! p" "pl_edge s1 ! p = 0 \<or> pl_edge s1 ! p = 1" using assms(5,6) by (simp_all add: k)
  have r: "run h inp s = simulate inp (a_idx s) (SIN_LUT ! a_idx s) (COS_LUT ! a_idx s) s1"
    unfolding s1_def by (rule run_simulates [OF assms(3) assms(2)])
  show ?thesis unfolding r
    using pslot_simulate_horizontal [OF w assms(4) a, of inp "a_idx s" "SIN_LUT ! a_idx s" "COS_LUT ! a_idx s"]
    by (simp only: k)
qed


lemma quiet_ticking: "quiet h inp \<Longrightarrow> ticking h inp"
  by (simp add: quiet_def ticking_def)

lemma run_horizontal:
  assumes "wf s" "stage s = 1" "ticking h inp" "p < MAX_PILE" "pl_act s ! p"
      and "pl_edge s ! p = 0 \<and> 0 \<le> COS_LUT ! a_idx s * GRAVITY * 2 \<or>
           pl_edge s ! p = 1 \<and> COS_LUT ! a_idx s * GRAVITY * 2 \<le> 0"
  shows "pslot (run h inp s) p =
           (L_LEFT \<le> pl_rx s ! p + (pl_sv s ! p + SIN_LUT ! a_idx s * GRAVITY * 2) * FRICTION \<and>
              pl_rx s ! p + (pl_sv s ! p + SIN_LUT ! a_idx s * GRAVITY * 2) * FRICTION \<le> L_RIGHT,
            pl_rx s ! p + (pl_sv s ! p + SIN_LUT ! a_idx s * GRAVITY * 2) * FRICTION, pl_ry s ! p,
            (pl_sv s ! p + SIN_LUT ! a_idx s * GRAVITY * 2) * FRICTION, pl_edge s ! p)"
proof -
  have e: "pl_edge s ! p = 0 \<or> pl_edge s ! p = 1" using assms(6) by blast
  have n: "\<not> ((pl_edge s ! p = 0 \<and> COS_LUT ! a_idx s * GRAVITY * 2 < 0) \<or>
               (pl_edge s ! p = 1 \<and> 0 < COS_LUT ! a_idx s * GRAVITY * 2))"
    using assms(6) by auto
  show ?thesis
    using pslot_run_horizontal [OF assms(1,2,3,4,5) e] n by (simp only: if_False)
qed

lemma pile_pass_horizontal:
  assumes "wf s" "p < MAX_PILE" "pl_act s ! p"
      and "pl_edge s ! p = 0 \<and> 0 \<le> ca * GRAVITY * 2 \<or> pl_edge s ! p = 1 \<and> ca * GRAVITY * 2 \<le> 0"
  shows "pslot (pile_pass sa ca s) p =
           (L_LEFT \<le> pl_rx s ! p + (pl_sv s ! p + sa * GRAVITY * 2) * FRICTION \<and>
              pl_rx s ! p + (pl_sv s ! p + sa * GRAVITY * 2) * FRICTION \<le> L_RIGHT,
            pl_rx s ! p + (pl_sv s ! p + sa * GRAVITY * 2) * FRICTION, pl_ry s ! p,
            (pl_sv s ! p + sa * GRAVITY * 2) * FRICTION, pl_edge s ! p)"
proof -
  have e: "pl_edge s ! p = 0 \<or> pl_edge s ! p = 1" using assms(4) by blast
  have n: "\<not> ((pl_edge s ! p = 0 \<and> ca * GRAVITY * 2 < 0) \<or>
               (pl_edge s ! p = 1 \<and> 0 < ca * GRAVITY * 2))"
    using assms(4) by auto
  show ?thesis
    using pslot_pile_pass_horizontal [OF assms(1,2,3) e, of sa ca] n by (simp only: if_False)
qed

lemma friction_sum: "(\<Sum>k = 1..Suc j. FRICTION ^ k) = FRICTION + FRICTION * (\<Sum>k = 1..j. FRICTION ^ k)"
proof (induction j)
  case 0
  then show ?case by simp
next
  case (Suc j)
  have "(\<Sum>k = 1..Suc (Suc j). FRICTION ^ k) = (\<Sum>k = 1..Suc j. FRICTION ^ k) + FRICTION ^ Suc (Suc j)"
    by simp
  also have "\<dots> = FRICTION + FRICTION * (\<Sum>k = 1..j. FRICTION ^ k) + FRICTION * FRICTION ^ Suc j"
    unfolding Suc.IH by simp
  also have "\<dots> = FRICTION + FRICTION * ((\<Sum>k = 1..j. FRICTION ^ k) + FRICTION ^ Suc j)"
    by (simp only: distrib_left add.assoc)
  also have "\<dots> = FRICTION + FRICTION * (\<Sum>k = 1..Suc j. FRICTION ^ k)"
    by simp
  finally show ?case .
qed

lemma flat_run:
  assumes "wf s" "stage s = 1" "\<not> rot s" "a_idx s = 0" "p < MAX_PILE" "pl_act s ! p"
      and "pl_edge s ! p = 0" "quiet h inp"
  shows "wf (run h inp s)" "stage (run h inp s) = 1" "\<not> rot (run h inp s)"
    "a_idx (run h inp s) = 0" "pl_edge (run h inp s) ! p = 0"
    "pl_sv (run h inp s) ! p = pl_sv s ! p * FRICTION"
    "pl_rx (run h inp s) ! p = pl_rx s ! p + pl_sv s ! p * FRICTION"
    "pl_act (run h inp s) ! p \<longleftrightarrow>
       L_LEFT \<le> pl_rx s ! p + pl_sv s ! p * FRICTION \<and> pl_rx s ! p + pl_sv s ! p * FRICTION \<le> L_RIGHT"
proof -
  have g: "pl_edge s ! p = 0 \<and> 0 \<le> COS_LUT ! a_idx s * GRAVITY * 2 \<or>
           pl_edge s ! p = 1 \<and> COS_LUT ! a_idx s * GRAVITY * 2 \<le> 0"
    using assms(4,7) by (simp add: LUT_0 GRAVITY_def)
  note r = run_horizontal [OF assms(1,2) quiet_ticking [OF assms(8)] assms(5,6) g]
  have r': "pslot (run h inp s) p =
      (L_LEFT \<le> pl_rx s ! p + pl_sv s ! p * FRICTION \<and> pl_rx s ! p + pl_sv s ! p * FRICTION \<le> L_RIGHT,
       pl_rx s ! p + pl_sv s ! p * FRICTION, pl_ry s ! p, pl_sv s ! p * FRICTION, 0)"
    using r assms(4,7) by (simp add: LUT_0)
  show "wf (run h inp s)" by (rule wf_run [OF assms(1)])
  show "stage (run h inp s) = 1" by (rule frame_ctl(4) [OF assms(8,2)])
  show "\<not> rot (run h inp s)" using frame_ctl(6) [OF assms(8,2)] assms(3) by simp
  show "a_idx (run h inp s) = 0" using assms(3,4) by (simp add: run_passes [OF assms(8,2)])
  show "pl_edge (run h inp s) ! p = 0" using r' by (simp add: pslot_def)
  show "pl_sv (run h inp s) ! p = pl_sv s ! p * FRICTION" using r' by (simp add: pslot_def)
  show "pl_rx (run h inp s) ! p = pl_rx s ! p + pl_sv s ! p * FRICTION" using r' by (simp add: pslot_def)
  show "pl_act (run h inp s) ! p \<longleftrightarrow>
       L_LEFT \<le> pl_rx s ! p + pl_sv s ! p * FRICTION \<and> pl_rx s ! p + pl_sv s ! p * FRICTION \<le> L_RIGHT"
    using r' by (simp add: pslot_def)
qed

lemma flat_frames:
  "wf s \<Longrightarrow> stage s = 1 \<Longrightarrow> \<not> rot s \<Longrightarrow> a_idx s = 0 \<Longrightarrow> p < MAX_PILE \<Longrightarrow> pl_act s ! p \<Longrightarrow>
   pl_edge s ! p = 0 \<Longrightarrow> list_all (quiet h) ins \<Longrightarrow>
   (\<forall>j\<le>length ins. L_LEFT \<le> pl_rx s ! p + pl_sv s ! p * (\<Sum>k = 1..j. FRICTION ^ k) \<and>
                     pl_rx s ! p + pl_sv s ! p * (\<Sum>k = 1..j. FRICTION ^ k) \<le> L_RIGHT) \<Longrightarrow>
   pl_act (frames h ins s) ! p \<and>
   pl_sv (frames h ins s) ! p = pl_sv s ! p * FRICTION ^ length ins \<and>
   pl_rx (frames h ins s) ! p = pl_rx s ! p + pl_sv s ! p * (\<Sum>k = 1..length ins. FRICTION ^ k)"
proof (induction ins arbitrary: s)
  case Nil
  then show ?case by simp
next
  case (Cons i ins)
  have q: "quiet h i" "list_all (quiet h) ins" using Cons.prems(8) by simp_all
  note f = flat_run [OF Cons.prems(1,2,3,4,5,6,7) q(1)]
  have b1: "L_LEFT \<le> pl_rx s ! p + pl_sv s ! p * FRICTION \<and>
            pl_rx s ! p + pl_sv s ! p * FRICTION \<le> L_RIGHT"
    using Cons.prems(9) [rule_format, of 1] by simp
  have a1: "pl_act (run h i s) ! p" using f(8) b1 by simp
  have sh: "\<And>j. pl_rx (run h i s) ! p + pl_sv (run h i s) ! p * (\<Sum>k = 1..j. FRICTION ^ k) =
                 pl_rx s ! p + pl_sv s ! p * (\<Sum>k = 1..Suc j. FRICTION ^ k)"
    unfolding f(6) f(7) friction_sum by (simp add: algebra_simps)
  have al: "\<forall>j\<le>length ins.
      L_LEFT \<le> pl_rx (run h i s) ! p + pl_sv (run h i s) ! p * (\<Sum>k = 1..j. FRICTION ^ k) \<and>
      pl_rx (run h i s) ! p + pl_sv (run h i s) ! p * (\<Sum>k = 1..j. FRICTION ^ k) \<le> L_RIGHT"
  proof (intro allI impI)
    fix j assume "j \<le> length ins"
    then have "Suc j \<le> length (i # ins)" by simp
    then show "L_LEFT \<le> pl_rx (run h i s) ! p + pl_sv (run h i s) ! p * (\<Sum>k = 1..j. FRICTION ^ k) \<and>
      pl_rx (run h i s) ! p + pl_sv (run h i s) ! p * (\<Sum>k = 1..j. FRICTION ^ k) \<le> L_RIGHT"
      unfolding sh using Cons.prems(9) by blast
  qed
  have ih: "pl_act (frames h ins (run h i s)) ! p \<and>
        pl_sv (frames h ins (run h i s)) ! p = pl_sv (run h i s) ! p * FRICTION ^ length ins \<and>
        pl_rx (frames h ins (run h i s)) ! p =
          pl_rx (run h i s) ! p + pl_sv (run h i s) ! p * (\<Sum>k = 1..length ins. FRICTION ^ k)"
    by (rule Cons.IH [OF f(1,2,3,4) Cons.prems(5) a1 f(5) q(2) al])
  have 1: "pl_act (frames h (i # ins) s) ! p" using ih by simp
  have 2: "pl_sv (frames h (i # ins) s) ! p = pl_sv s ! p * FRICTION ^ length (i # ins)"
    using ih by (simp add: f(6))
  have 3: "pl_rx (frames h (i # ins) s) ! p =
             pl_rx s ! p + pl_sv s ! p * (\<Sum>k = 1..length (i # ins). FRICTION ^ k)"
    using ih sh [of "length ins"] by simp
  show ?case using 1 2 3 by blast
qed

lemma friction_decay: "(\<lambda>n. v * FRICTION ^ n) \<longlonglongrightarrow> 0"
proof -
  have "(\<lambda>n. FRICTION ^ n) \<longlonglongrightarrow> 0"
    by (rule LIMSEQ_realpow_zero) (simp_all add: FRICTION_def)
  then show ?thesis by (rule tendsto_mult_right_zero)
qed


lemma slide_in_reach:
  fixes a :: real
  assumes "- 1 \<le> a" "a \<le> 1"
  shows "L_LEFT \<le> 0 + (1 + a * GRAVITY * 2) * FRICTION \<and>
         0 + (1 + a * GRAVITY * 2) * FRICTION \<le> L_RIGHT"
  using assms by (simp add: L_LEFT_def L_RIGHT_def GRAVITY_def FRICTION_def)

lemma cos_tilt: "0 \<le> cos (1 / 20 :: real)"
proof -
  have "(1 / 20 :: real) < pi / 2" using pi_ge_two by simp
  then have "0 < cos (1 / 20 :: real)" by (intro cos_gt_zero) simp_all
  then show ?thesis by simp
qed

lemma cos_under: "cos (5 / 2 :: real) \<le> 0"
proof -
  have 1: "- (pi / 2) < 5 / 2 - pi" using pi_half_less_two by simp
  have 2: "5 / 2 - pi < pi / 2" using pi_ge_two by simp
  have "0 < cos (5 / 2 - pi)" by (rule cos_gt_zero_pi [OF 1 2])
  moreover have "cos (5 / 2 - pi + pi) = - cos (5 / 2 - pi)" by (rule cos_periodic_pi)
  ultimately show ?thesis by simp
qed

text \<open>
  Claim C7: in a frame that simulates, an active pile particle on the top edge with the
  gravity component across the edge not negative, or on the bottom edge with that
  component not positive, has its sliding velocity replaced by
  \<open>(velocity + SIN_LUT ! a_idx * GRAVITY * 2) * FRICTION\<close>, the sine being that of the
  frame's angle, and its local horizontal coordinate advanced by the new velocity; it
  stays on the pile exactly when the new coordinate lies between \<open>L_LEFT\<close> and
  \<open>L_RIGHT\<close>. The same holds of the pile pass alone for any sine and cosine handed to it.
  While the logo lies flat and does not turn, the added term is 0, and through a run of
  frames a particle on the top edge whose coordinate stays within the edge keeps its
  place on the pile and has its velocity multiplied by \<open>FRICTION = 0.95\<close> in each frame:
  the sign never changes, the size never grows, and the sequence tends to 0.
\<close>

theorem horizontal_slide:
  "(wf s \<and> stage s = 1 \<and> ticking h inp \<and> p < MAX_PILE \<and> pl_act s ! p \<and>
    (pl_edge s ! p = 0 \<and> 0 \<le> COS_LUT ! a_idx s * GRAVITY * 2 \<or>
     pl_edge s ! p = 1 \<and> COS_LUT ! a_idx s * GRAVITY * 2 \<le> 0) \<longrightarrow>
      pl_sv (run h inp s) ! p = (pl_sv s ! p + SIN_LUT ! a_idx s * GRAVITY * 2) * FRICTION \<and>
      pl_rx (run h inp s) ! p = pl_rx s ! p + pl_sv (run h inp s) ! p \<and>
      pl_ry (run h inp s) ! p = pl_ry s ! p \<and>
      pl_edge (run h inp s) ! p = pl_edge s ! p \<and>
      (pl_act (run h inp s) ! p \<longleftrightarrow>
         L_LEFT \<le> pl_rx (run h inp s) ! p \<and> pl_rx (run h inp s) ! p \<le> L_RIGHT)) \<and>
   (wf s \<and> p < MAX_PILE \<and> pl_act s ! p \<and>
    (pl_edge s ! p = 0 \<and> 0 \<le> ca * GRAVITY * 2 \<or> pl_edge s ! p = 1 \<and> ca * GRAVITY * 2 \<le> 0) \<longrightarrow>
      pl_sv (pile_pass sa ca s) ! p = (pl_sv s ! p + sa * GRAVITY * 2) * FRICTION \<and>
      pl_rx (pile_pass sa ca s) ! p = pl_rx s ! p + pl_sv (pile_pass sa ca s) ! p \<and>
      pl_ry (pile_pass sa ca s) ! p = pl_ry s ! p \<and>
      pl_edge (pile_pass sa ca s) ! p = pl_edge s ! p \<and>
      (pl_act (pile_pass sa ca s) ! p \<longleftrightarrow>
         L_LEFT \<le> pl_rx (pile_pass sa ca s) ! p \<and> pl_rx (pile_pass sa ca s) ! p \<le> L_RIGHT)) \<and>
   (wf s \<and> stage s = 1 \<and> \<not> rot s \<and> a_idx s = 0 \<and> p < MAX_PILE \<and> pl_act s ! p \<and>
    pl_edge s ! p = 0 \<and> list_all (quiet h) ins \<and>
    (\<forall>j\<le>length ins.
        L_LEFT \<le> pl_rx s ! p + pl_sv s ! p * (\<Sum>k = 1..j. FRICTION ^ k) \<and>
        pl_rx s ! p + pl_sv s ! p * (\<Sum>k = 1..j. FRICTION ^ k) \<le> L_RIGHT) \<longrightarrow>
      SIN_LUT ! a_idx s * GRAVITY * 2 = 0 \<and>
      pl_act (frames h ins s) ! p \<and>
      pl_sv (frames h ins s) ! p = pl_sv s ! p * FRICTION ^ length ins \<and>
      pl_rx (frames h ins s) ! p =
        pl_rx s ! p + pl_sv s ! p * (\<Sum>k = 1..length ins. FRICTION ^ k) \<and>
      sgn (pl_sv (frames h ins s) ! p) = sgn (pl_sv s ! p) \<and>
      \<bar>pl_sv (frames h ins s) ! p\<bar> \<le> \<bar>pl_sv s ! p\<bar>) \<and>
   FRICTION = 0.95 \<and> (\<lambda>n. pl_sv s ! p * FRICTION ^ n) \<longlonglongrightarrow> 0"
proof (intro conjI impI)
  assume a: "wf s \<and> stage s = 1 \<and> ticking h inp \<and> p < MAX_PILE \<and> pl_act s ! p \<and>
    (pl_edge s ! p = 0 \<and> 0 \<le> COS_LUT ! a_idx s * GRAVITY * 2 \<or>
     pl_edge s ! p = 1 \<and> COS_LUT ! a_idx s * GRAVITY * 2 \<le> 0)"
  then have a': "wf s" "stage s = 1" "ticking h inp" "p < MAX_PILE" "pl_act s ! p"
    "pl_edge s ! p = 0 \<and> 0 \<le> COS_LUT ! a_idx s * GRAVITY * 2 \<or>
     pl_edge s ! p = 1 \<and> COS_LUT ! a_idx s * GRAVITY * 2 \<le> 0"
    by blast+
  note r = run_horizontal [OF a']
  show "pl_sv (run h inp s) ! p = (pl_sv s ! p + SIN_LUT ! a_idx s * GRAVITY * 2) * FRICTION"
    using r by (simp add: pslot_def)
  show "pl_rx (run h inp s) ! p = pl_rx s ! p + pl_sv (run h inp s) ! p"
    using r by (simp add: pslot_def)
  show "pl_ry (run h inp s) ! p = pl_ry s ! p" using r by (simp add: pslot_def)
  show "pl_edge (run h inp s) ! p = pl_edge s ! p" using r by (simp add: pslot_def)
  show "pl_act (run h inp s) ! p \<longleftrightarrow>
         L_LEFT \<le> pl_rx (run h inp s) ! p \<and> pl_rx (run h inp s) ! p \<le> L_RIGHT"
    using r by (simp add: pslot_def)
next
  assume b: "wf s \<and> p < MAX_PILE \<and> pl_act s ! p \<and>
    (pl_edge s ! p = 0 \<and> 0 \<le> ca * GRAVITY * 2 \<or> pl_edge s ! p = 1 \<and> ca * GRAVITY * 2 \<le> 0)"
  then have b': "wf s" "p < MAX_PILE" "pl_act s ! p"
    "pl_edge s ! p = 0 \<and> 0 \<le> ca * GRAVITY * 2 \<or> pl_edge s ! p = 1 \<and> ca * GRAVITY * 2 \<le> 0"
    by blast+
  note r = pile_pass_horizontal [OF b', of sa]
  show "pl_sv (pile_pass sa ca s) ! p = (pl_sv s ! p + sa * GRAVITY * 2) * FRICTION"
    using r by (simp add: pslot_def)
  show "pl_rx (pile_pass sa ca s) ! p = pl_rx s ! p + pl_sv (pile_pass sa ca s) ! p"
    using r by (simp add: pslot_def)
  show "pl_ry (pile_pass sa ca s) ! p = pl_ry s ! p" using r by (simp add: pslot_def)
  show "pl_edge (pile_pass sa ca s) ! p = pl_edge s ! p" using r by (simp add: pslot_def)
  show "pl_act (pile_pass sa ca s) ! p \<longleftrightarrow>
         L_LEFT \<le> pl_rx (pile_pass sa ca s) ! p \<and> pl_rx (pile_pass sa ca s) ! p \<le> L_RIGHT"
    using r by (simp add: pslot_def)
next
  assume c: "wf s \<and> stage s = 1 \<and> \<not> rot s \<and> a_idx s = 0 \<and> p < MAX_PILE \<and> pl_act s ! p \<and>
    pl_edge s ! p = 0 \<and> list_all (quiet h) ins \<and>
    (\<forall>j\<le>length ins.
        L_LEFT \<le> pl_rx s ! p + pl_sv s ! p * (\<Sum>k = 1..j. FRICTION ^ k) \<and>
        pl_rx s ! p + pl_sv s ! p * (\<Sum>k = 1..j. FRICTION ^ k) \<le> L_RIGHT)"
  then have c': "wf s" "stage s = 1" "\<not> rot s" "a_idx s = 0" "p < MAX_PILE" "pl_act s ! p"
    "pl_edge s ! p = 0" "list_all (quiet h) ins"
    "\<forall>j\<le>length ins.
        L_LEFT \<le> pl_rx s ! p + pl_sv s ! p * (\<Sum>k = 1..j. FRICTION ^ k) \<and>
        pl_rx s ! p + pl_sv s ! p * (\<Sum>k = 1..j. FRICTION ^ k) \<le> L_RIGHT"
    by blast+
  note f = flat_frames [OF c']
  have e: "pl_sv (frames h ins s) ! p = pl_sv s ! p * FRICTION ^ length ins" using f by blast
  have g: "0 < FRICTION ^ length ins" "FRICTION ^ length ins \<le> 1"
    by (simp_all add: FRICTION_def power_le_one)
  show "SIN_LUT ! a_idx s * GRAVITY * 2 = 0" using c'(4) by (simp add: LUT_0)
  show "pl_act (frames h ins s) ! p" using f by blast
  show "pl_sv (frames h ins s) ! p = pl_sv s ! p * FRICTION ^ length ins" by (rule e)
  show "pl_rx (frames h ins s) ! p =
        pl_rx s ! p + pl_sv s ! p * (\<Sum>k = 1..length ins. FRICTION ^ k)" using f by blast
  have sg: "sgn FRICTION = 1" by (simp add: FRICTION_def)
  show "sgn (pl_sv (frames h ins s) ! p) = sgn (pl_sv s ! p)"
    by (simp add: e sgn_mult sg)
  show "\<bar>pl_sv (frames h ins s) ! p\<bar> \<le> \<bar>pl_sv s ! p\<bar>"
    using g mult_left_le [of "FRICTION ^ length ins" "\<bar>pl_sv s ! p\<bar>"] by (simp add: e abs_mult)
next
  show "FRICTION = 0.95" by (simp add: FRICTION_def)
  show "(\<lambda>n. pl_sv s ! p * FRICTION ^ n) \<longlonglongrightarrow> 0" by (rule friction_decay)
qed

theorem horizontal_slide_witness:
  "pl_sv (run demo_host demo_quiet demo_tilt) ! 0 = (1 + sin (1 / 20) * GRAVITY * 2) * FRICTION \<and>
   pl_rx (run demo_host demo_quiet demo_tilt) ! 0 = (1 + sin (1 / 20) * GRAVITY * 2) * FRICTION \<and>
   pl_act (run demo_host demo_quiet demo_tilt) ! 0 \<and>
   pl_sv (run demo_host demo_quiet demo_under) ! 0 = (1 + sin (5 / 2) * GRAVITY * 2) * FRICTION \<and>
   pl_rx (run demo_host demo_quiet demo_under) ! 0 = (1 + sin (5 / 2) * GRAVITY * 2) * FRICTION \<and>
   pl_act (run demo_host demo_quiet demo_under) ! 0 \<and>
   pl_sv (pile_pass (1 / 2) (- 1) demo_under) ! 0 = 513 / 500 \<and>
   pl_rx (pile_pass (1 / 2) (- 1) demo_under) ! 0 = 513 / 500 \<and>
   pl_act (pile_pass (1 / 2) (- 1) demo_under) ! 0 \<and>
   pl_act (frames demo_host [demo_quiet, demo_quiet] demo_top) ! 0 \<and>
   pl_sv (frames demo_host [demo_quiet, demo_quiet] demo_top) ! 0 = 361 / 400 \<and>
   pl_rx (frames demo_host [demo_quiet, demo_quiet] demo_top) ! 0 = 741 / 400"
proof -
  have z: "(0::nat) < MAX_PILE" by (simp add: MAX_PILE_def)
  have tk: "ticking demo_host demo_quiet" by (rule quiet_ticking [OF quiet_demo])
  have wt: "wf demo_top" using wf_fresh by (simp add: demo_top_def wf_def)
  have wl: "wf demo_tilt" using wt by (simp add: demo_tilt_def wf_def ROT_STEPS_def)
  have wu: "wf demo_under" using wf_fresh by (simp add: demo_under_def wf_def ROT_STEPS_def)
  have dt: "stage demo_top = 1" "\<not> rot demo_top" "a_idx demo_top = 0" "pl_act demo_top ! 0"
    "pl_edge demo_top ! 0 = 0" "pl_sv demo_top ! 0 = 1" "pl_rx demo_top ! 0 = 0"
    by (simp_all add: demo_top_def fresh_eq MAX_PILE_def)
  have dl: "stage demo_tilt = 1" "a_idx demo_tilt = 1" "pl_act demo_tilt ! 0"
    "pl_edge demo_tilt ! 0 = 0" "pl_sv demo_tilt ! 0 = 1" "pl_rx demo_tilt ! 0 = 0"
    by (simp_all add: demo_tilt_def demo_top_def fresh_eq MAX_PILE_def)
  have du: "stage demo_under = 1" "a_idx demo_under = 50" "pl_act demo_under ! 0"
    "pl_edge demo_under ! 0 = 1" "pl_sv demo_under ! 0 = 1" "pl_rx demo_under ! 0 = 0"
    by (simp_all add: demo_under_def fresh_eq MAX_PILE_def)
  have l1: "SIN_LUT ! 1 = sin (1 / 20)" "COS_LUT ! 1 = cos (1 / 20)"
    by (simp_all add: SIN_LUT_nth COS_LUT_nth ROT_STEPS_def)
  have l1': "SIN_LUT ! Suc 0 = sin (1 / 20)" "COS_LUT ! Suc 0 = cos (1 / 20)"
    using l1 by simp_all
  have l50: "SIN_LUT ! 50 = sin (5 / 2)" "COS_LUT ! 50 = cos (5 / 2)"
    by (simp_all add: SIN_LUT_nth COS_LUT_nth ROT_STEPS_def)
  have g1: "pl_edge demo_tilt ! 0 = 0 \<and> 0 \<le> COS_LUT ! a_idx demo_tilt * GRAVITY * 2 \<or>
            pl_edge demo_tilt ! 0 = 1 \<and> COS_LUT ! a_idx demo_tilt * GRAVITY * 2 \<le> 0"
    unfolding dl l1 using cos_tilt by (simp add: GRAVITY_def)
  have g50: "pl_edge demo_under ! 0 = 0 \<and> 0 \<le> COS_LUT ! a_idx demo_under * GRAVITY * 2 \<or>
             pl_edge demo_under ! 0 = 1 \<and> COS_LUT ! a_idx demo_under * GRAVITY * 2 \<le> 0"
    unfolding du l50 using cos_under by (simp add: GRAVITY_def)
  have gp: "pl_edge demo_under ! 0 = 0 \<and> 0 \<le> (- 1 :: real) * GRAVITY * 2 \<or>
            pl_edge demo_under ! 0 = 1 \<and> (- 1 :: real) * GRAVITY * 2 \<le> 0"
    by (simp add: du GRAVITY_def)
  have al: "\<forall>j\<le>length [demo_quiet, demo_quiet].
      L_LEFT \<le> pl_rx demo_top ! 0 + pl_sv demo_top ! 0 * (\<Sum>k = 1..j. FRICTION ^ k) \<and>
      pl_rx demo_top ! 0 + pl_sv demo_top ! 0 * (\<Sum>k = 1..j. FRICTION ^ k) \<le> L_RIGHT"
  proof (intro allI impI)
    fix j :: nat assume "j \<le> length [demo_quiet, demo_quiet]"
    then consider "j = 0" | "j = Suc 0" | "j = Suc (Suc 0)" by fastforce
    then show "L_LEFT \<le> pl_rx demo_top ! 0 + pl_sv demo_top ! 0 * (\<Sum>k = 1..j. FRICTION ^ k) \<and>
      pl_rx demo_top ! 0 + pl_sv demo_top ! 0 * (\<Sum>k = 1..j. FRICTION ^ k) \<le> L_RIGHT"
      by cases (simp_all add: dt FRICTION_def L_LEFT_def L_RIGHT_def)
  qed
  have q: "list_all (quiet demo_host) [demo_quiet, demo_quiet]" by (simp add: quiet_demo)
  have r1: "L_LEFT \<le> 0 + (1 + sin (1 / 20) * GRAVITY * 2) * FRICTION \<and>
            0 + (1 + sin (1 / 20) * GRAVITY * 2) * FRICTION \<le> L_RIGHT"
    by (rule slide_in_reach) simp_all
  have r50: "L_LEFT \<le> 0 + (1 + sin (5 / 2) * GRAVITY * 2) * FRICTION \<and>
            0 + (1 + sin (5 / 2) * GRAVITY * 2) * FRICTION \<le> L_RIGHT"
    by (rule slide_in_reach) simp_all
  have A: "pl_sv (run demo_host demo_quiet demo_tilt) ! 0 = (1 + sin (1 / 20) * GRAVITY * 2) * FRICTION \<and>
   pl_rx (run demo_host demo_quiet demo_tilt) ! 0 = (1 + sin (1 / 20) * GRAVITY * 2) * FRICTION \<and>
   pl_act (run demo_host demo_quiet demo_tilt) ! 0"
    using horizontal_slide [where s = demo_tilt and h = demo_host and inp = demo_quiet and p = 0
        and sa = 0 and ca = 1 and ins = "[]"] wl dl(1) tk z dl(3) g1 r1
    by (simp add: dl l1')
  have B: "pl_sv (run demo_host demo_quiet demo_under) ! 0 = (1 + sin (5 / 2) * GRAVITY * 2) * FRICTION \<and>
   pl_rx (run demo_host demo_quiet demo_under) ! 0 = (1 + sin (5 / 2) * GRAVITY * 2) * FRICTION \<and>
   pl_act (run demo_host demo_quiet demo_under) ! 0"
    using horizontal_slide [where s = demo_under and h = demo_host and inp = demo_quiet and p = 0
        and sa = 0 and ca = 1 and ins = "[]"] wu du(1) tk z du(3) g50 r50
    by (simp add: du l50)
  have C: "pl_sv (pile_pass (1 / 2) (- 1) demo_under) ! 0 = 513 / 500 \<and>
   pl_rx (pile_pass (1 / 2) (- 1) demo_under) ! 0 = 513 / 500 \<and>
   pl_act (pile_pass (1 / 2) (- 1) demo_under) ! 0"
    using horizontal_slide [where s = demo_under and h = demo_host and inp = demo_quiet and p = 0
        and sa = "1 / 2" and ca = "- 1" and ins = "[]"] wu z du(3) gp
    by (simp add: du GRAVITY_def FRICTION_def L_LEFT_def L_RIGHT_def)
  have D: "pl_act (frames demo_host [demo_quiet, demo_quiet] demo_top) ! 0 \<and>
   pl_sv (frames demo_host [demo_quiet, demo_quiet] demo_top) ! 0 = 361 / 400 \<and>
   pl_rx (frames demo_host [demo_quiet, demo_quiet] demo_top) ! 0 = 741 / 400"
    using horizontal_slide [where s = demo_top and h = demo_host and inp = demo_quiet and p = 0
        and sa = 0 and ca = 1 and ins = "[demo_quiet, demo_quiet]"] wt dt(1,2,3,4,5) z q al
    by (simp add: dt FRICTION_def power2_eq_square)
  show ?thesis using A B C D by blast
qed

end
